theory Spec2Isabelle
  imports Complex_Main "HOL-Library.List_Lexorder" "HOL-Library.Char_ord"
begin

section \<open>Usage records page: pure helpers\<close>

subsection \<open>maskApiKey\<close>

text \<open>
  \<^verbatim>\<open>maskApiKey(key: string | undefined)\<close>: an absent key is \<open>None\<close>; a
  string is the list of its code units. \<^verbatim>\<open>!key\<close> holds for \<^verbatim>\<open>undefined\<close> and for the
  empty string. \<^verbatim>\<open>key.slice(-4)\<close> starts at \<open>max (length - 4) 0\<close>, which is what the
  truncating subtraction on \<open>nat\<close> computes.
\<close>

definition maskApiKey :: "string option \<Rightarrow> string" where
  "maskApiKey key =
     (case key of
        None \<Rightarrow> ''-''
      | Some k \<Rightarrow>
          if k = [] then ''-''
          else if length k \<le> 8 then replicate (length k) CHR ''*''
          else take 4 k @ ''****'' @ drop (length k - 4) k)"

section \<open>Activity heatmap\<close>

record ActivityHeatmapDay =
  date :: string
  requests :: int
  total_tokens :: int

subsection \<open>getIntensityLevel\<close>

text \<open>
  Request counts are integers; the quotient is taken in the reals. For integer counts
  below \<open>2^53\<close> the double-precision quotient compares with 0.25, 0.5 and 0.75 (all
  representable) exactly as the real quotient does.
\<close>

definition getIntensityLevel :: "int \<Rightarrow> int \<Rightarrow> nat" where
  "getIntensityLevel reqs maxRequests =
     (if reqs = 0 then 0
      else if maxRequests = 0 then 0
      else (let ratio = real_of_int reqs / real_of_int maxRequests
            in if ratio \<le> 0.25 then 1
               else if ratio \<le> 0.5 then 2
               else if ratio \<le> 0.75 then 3
               else 4))"

text \<open>
  The attributes of one rendered cell that depend on the request count: whether the
  class list contains \<^verbatim>\<open>empty\<close>, and the \<^verbatim>\<open>data-level\<close> attribute.
\<close>

record heatmap_cell =
  cell_empty :: bool
  data_level :: nat

definition render_cell :: "ActivityHeatmapDay \<Rightarrow> int \<Rightarrow> heatmap_cell" where
  "render_cell day max_requests =
     \<lparr> cell_empty = (requests day < 0),
       data_level = (if requests day \<ge> 0
                     then getIntensityLevel (requests day) max_requests else 0) \<rparr>"

subsection \<open>Calendar dates as the platform's Date object sees them\<close>

text \<open>
  The component builds \<^verbatim>\<open>new Date(`${day.date}T00:00:00Z`)\<close> and reads
  \<^verbatim>\<open>getUTCDay()\<close> and \<^verbatim>\<open>getUTCMonth()\<close>. The Date object belongs to the platform;
  it is modelled for day strings of the form \<^verbatim>\<open>YYYY-MM-DD\<close> that name a day of the
  proleptic Gregorian calendar, with the day number and the week day of ECMAScript
  (DayFromYear, MakeDay, WeekDay: 1 January 1970 is day 0, a Thursday). Every other
  string is an invalid date, whose UTC fields are NaN (\<open>None\<close>).
\<close>

definition digit_of :: "char \<Rightarrow> int option" where
  "digit_of c =
     (let n = (of_char c :: nat) in if 48 \<le> n \<and> n \<le> 57 then Some (int n - 48) else None)"

definition number_of :: "string \<Rightarrow> int option" where
  "number_of cs =
     foldl (\<lambda>acc c. case acc of None \<Rightarrow> None
                     | Some a \<Rightarrow> (case digit_of c of None \<Rightarrow> None
                                  | Some d \<Rightarrow> Some (10 * a + d)))
       (Some 0) cs"

definition is_leap :: "int \<Rightarrow> bool" where
  "is_leap y = (y mod 4 = 0 \<and> (y mod 100 \<noteq> 0 \<or> y mod 400 = 0))"

definition days_in_month :: "int \<Rightarrow> int \<Rightarrow> int" where
  "days_in_month y m =
     (if m = 2 then (if is_leap y then 29 else 28)
      else if m = 4 \<or> m = 6 \<or> m = 9 \<or> m = 11 then 30 else 31)"

definition parse_date :: "string \<Rightarrow> (int \<times> int \<times> int) option" where
  "parse_date s =
     (if length s = 10 \<and> s ! 4 = CHR ''-'' \<and> s ! 7 = CHR ''-'' then
        (case number_of (take 4 s) of None \<Rightarrow> None
         | Some y \<Rightarrow>
        (case number_of (take 2 (drop 5 s)) of None \<Rightarrow> None
         | Some m \<Rightarrow>
        (case number_of (drop 8 s) of None \<Rightarrow> None
         | Some d \<Rightarrow>
            if 1 \<le> m \<and> m \<le> 12 \<and> 1 \<le> d \<and> d \<le> days_in_month y m
            then Some (y, m, d) else None)))
      else None)"

definition DayFromYear :: "int \<Rightarrow> int" where
  "DayFromYear y =
     365 * (y - 1970) + (y - 1969) div 4 - (y - 1901) div 100 + (y - 1601) div 400"

definition days_before_month :: "int \<Rightarrow> int \<Rightarrow> int" where
  "days_before_month y m =
     [0, 31, 59, 90, 120, 151, 181, 212, 243, 273, 304, 334] ! nat (m - 1)
       + (if 2 < m \<and> is_leap y then 1 else 0)"

definition MakeDay :: "int \<Rightarrow> int \<Rightarrow> int \<Rightarrow> int" where
  "MakeDay y m d = DayFromYear y + days_before_month y m + (d - 1)"

definition WeekDay :: "int \<Rightarrow> nat" where
  "WeekDay day = nat ((day + 4) mod 7)"

datatype js_date = InvalidDate | UTCDate int int int

definition new_Date :: "string \<Rightarrow> js_date" where
  "new_Date s = (case parse_date s of None \<Rightarrow> InvalidDate | Some (y, m, d) \<Rightarrow> UTCDate y m d)"

fun getUTCDay :: "js_date \<Rightarrow> nat option" where
  "getUTCDay InvalidDate = None"
| "getUTCDay (UTCDate y m d) = Some (WeekDay (MakeDay y m d))"

fun getUTCMonth :: "js_date \<Rightarrow> int option" where
  "getUTCMonth InvalidDate = None"
| "getUTCMonth (UTCDate y m d) = Some (m - 1)"

text \<open>The calendar successor of a day, and a day sequence without calendar gaps.\<close>

fun next_day :: "int \<times> int \<times> int \<Rightarrow> int \<times> int \<times> int" where
  "next_day (y, m, d) =
     (if d < days_in_month y m then (y, m, d + 1)
      else if m < 12 then (y, m + 1, 1)
      else (y + 1, 1, 1))"

fun contiguous :: "ActivityHeatmapDay list \<Rightarrow> bool" where
  "contiguous [] = True"
| "contiguous [d] = (parse_date (date d) \<noteq> None)"
| "contiguous (d # e # ds) =
     (case parse_date (date d) of
        None \<Rightarrow> False
      | Some c \<Rightarrow> parse_date (date e) = Some (next_day c) \<and> contiguous (e # ds))"

subsection \<open>Week layout and month labels\<close>

record ActivityHeatmapData =
  days :: "ActivityHeatmapDay list"
  max_requests :: int

text \<open>
  \<^verbatim>\<open>MONTHS\<close>: the month number followed by the character U+6708, written here as its
  three UTF-8 bytes. \<^verbatim>\<open>MONTHS[month]\<close> is \<^verbatim>\<open>undefined\<close> for NaN.
\<close>

definition yue :: string where
  "yue = [CHR 0xE6, CHR 0x9C, CHR 0x88]"

definition MONTHS :: "string list" where
  "MONTHS =
     [''1'' @ yue, ''2'' @ yue, ''3'' @ yue, ''4'' @ yue, ''5'' @ yue, ''6'' @ yue,
      ''7'' @ yue, ''8'' @ yue, ''9'' @ yue, ''10'' @ yue, ''11'' @ yue, ''12'' @ yue]"

definition MONTHS_at :: "int option \<Rightarrow> string option" where
  "MONTHS_at i =
     (case i of None \<Rightarrow> None
      | Some k \<Rightarrow> if 0 \<le> k \<and> k < 12 then Some (MONTHS ! nat k) else None)"

record MonthLabel =
  month :: "string option"
  colStart :: nat

record layout_state =
  weeks :: "ActivityHeatmapDay list list"
  monthLabels :: "MonthLabel list"
  currentWeek :: "ActivityHeatmapDay list"
  currentMonth :: "int option"

definition padding_day :: ActivityHeatmapDay where
  "padding_day = \<lparr> date = [], requests = - 1, total_tokens = 0 \<rparr>"

text \<open>\<^verbatim>\<open>month !== currentMonth\<close>: NaN differs from everything, itself included.\<close>

definition js_neq :: "int option \<Rightarrow> int option \<Rightarrow> bool" where
  "js_neq a b = (a = None \<or> b = None \<or> a \<noteq> b)"

text \<open>The body of \<^verbatim>\<open>data.days.forEach\<close>.\<close>

definition layout_step :: "layout_state \<Rightarrow> ActivityHeatmapDay \<Rightarrow> layout_state" where
  "layout_step st day =
     (let dt = new_Date (date day);
          mon = getUTCMonth dt;
          dayOfWeek = getUTCDay dt;
          st1 = (if js_neq mon (currentMonth st)
                 then st\<lparr> currentMonth := mon,
                          monthLabels := monthLabels st
                            @ [\<lparr> month = MONTHS_at mon, colStart = length (weeks st) \<rparr>] \<rparr>
                 else st);
          st2 = st1\<lparr> currentWeek := currentWeek st1 @ [day] \<rparr>
      in if dayOfWeek = Some 6
         then st2\<lparr> weeks := weeks st2 @ [currentWeek st2], currentWeek := [] \<rparr>
         else st2)"

text \<open>
  The state before the \<^verbatim>\<open>forEach\<close>: the first week is padded up to the week day of
  the first day. A loop bound of NaN runs the padding loop zero times.
\<close>

definition layout_init :: "ActivityHeatmapDay list \<Rightarrow> layout_state" where
  "layout_init ds =
     \<lparr> weeks = [], monthLabels = [],
       currentWeek = replicate (case getUTCDay (new_Date (date (hd ds))) of None \<Rightarrow> 0 | Some n \<Rightarrow> n)
                       padding_day,
       currentMonth = Some (- 1) \<rparr>"

text \<open>
  The \<^verbatim>\<open>useMemo\<close> that computes \<^verbatim>\<open>{ weeks, monthLabels }\<close>. The closing
  \<^verbatim>\<open>while\<close> adds nothing to a week that already has 7 or more entries.
\<close>

definition layout ::
  "ActivityHeatmapData option \<Rightarrow> ActivityHeatmapDay list list \<times> MonthLabel list" where
  "layout data =
     (case data of
        None \<Rightarrow> ([], [])
      | Some dat \<Rightarrow>
          if days dat = [] then ([], [])
          else
            (let st = foldl layout_step (layout_init (days dat)) (days dat);
                 ws = (if length (currentWeek st) > 0
                       then weeks st
                            @ [currentWeek st @ replicate (7 - length (currentWeek st)) padding_day]
                       else weeks st)
             in (ws, monthLabels st)))"

definition is_padding :: "ActivityHeatmapDay \<Rightarrow> bool" where
  "is_padding d = (date d = [] \<and> requests d = - 1)"

text \<open>The calendar month (year and month) and the UTC month number of a day.\<close>

definition year_month :: "ActivityHeatmapDay \<Rightarrow> int \<times> int" where
  "year_month d = (case parse_date (date d) of None \<Rightarrow> (0, 0) | Some (y, m, dd) \<Rightarrow> (y, m))"

definition utc_month :: "ActivityHeatmapDay \<Rightarrow> int" where
  "utc_month d = snd (year_month d) - 1"

definition month_index :: "int \<times> int \<Rightarrow> int" where
  "month_index ym = 12 * fst ym + snd ym"

text \<open>The day of the month of a day.\<close>

definition day_of_month :: "ActivityHeatmapDay \<Rightarrow> int" where
  "day_of_month d = (case parse_date (date d) of None \<Rightarrow> 0 | Some (y, m, dd) \<Rightarrow> dd)"

text \<open>
  A gap-free feed for examples: \<open>n\<close> consecutive days from a given calendar day on, each
  with one request, dated in the form \<^verbatim>\<open>YYYY-MM-DD\<close>.
\<close>

definition digit_char :: "int \<Rightarrow> char" where
  "digit_char n = ''0123456789'' ! nat (n mod 10)"

definition iso_date :: "int \<times> int \<times> int \<Rightarrow> string" where
  "iso_date c =
     (case c of (y, m, d) \<Rightarrow>
        [digit_char (y div 1000), digit_char (y div 100), digit_char (y div 10), digit_char y,
         CHR ''-'', digit_char (m div 10), digit_char m,
         CHR ''-'', digit_char (d div 10), digit_char d])"

fun feed :: "int \<times> int \<times> int \<Rightarrow> nat \<Rightarrow> ActivityHeatmapDay list" where
  "feed c 0 = []"
| "feed c (Suc n) = \<lparr> date = iso_date c, requests = 1, total_tokens = 0 \<rparr> # feed (next_day c) n"

subsection \<open>Responsive truncation\<close>

definition CELL_SIZE :: int where "CELL_SIZE = 11"
definition CELL_GAP :: int where "CELL_GAP = 3"
definition WEEKDAY_LABEL_WIDTH :: int where "WEEKDAY_LABEL_WIDTH = 20"

text \<open>
  \<^verbatim>\<open>updateVisibleWeeks\<close>: the value passed to \<^verbatim>\<open>setVisibleWeeksCount\<close> for a container
  of \<^verbatim>\<open>clientWidth = width\<close> (an integer) and \<^verbatim>\<open>weeks.length = n\<close>.
\<close>

definition updateVisibleWeeks :: "int \<Rightarrow> nat \<Rightarrow> nat" where
  "updateVisibleWeeks width n =
     (if width \<le> 0 \<or> n = 0 then n
      else
        (let availableWidth = width - WEEKDAY_LABEL_WIDTH;
             weeksCanFit = (availableWidth + CELL_GAP) div (CELL_SIZE + CELL_GAP)
         in nat (min (max weeksCanFit 1) (int n))))"

definition visibleWeeks :: "nat \<Rightarrow> 'a list \<Rightarrow> 'a list" where
  "visibleWeeks visibleWeeksCount ws =
     (if visibleWeeksCount \<ge> length ws \<or> visibleWeeksCount = 0 then ws
      else drop (length ws - visibleWeeksCount) ws)"

definition visibleMonthLabels :: "nat \<Rightarrow> nat \<Rightarrow> MonthLabel list \<Rightarrow> MonthLabel list" where
  "visibleMonthLabels visibleWeeksCount weeks_length labels =
     (if visibleWeeksCount \<ge> weeks_length \<or> visibleWeeksCount = 0 then labels
      else
        (let startVisibleIndex = weeks_length - visibleWeeksCount
         in map (\<lambda>label. label\<lparr> colStart := colStart label - startVisibleIndex \<rparr>)
              (filter (\<lambda>label. colStart label \<ge> startVisibleIndex) labels)))"

section \<open>Usage records page: state and operations\<close>

datatype PeriodValue = today | yesterday | last7days | last30days | last90days

text \<open>\<^verbatim>\<open>StatusValue\<close>; \<open>status_all\<close> is the value \<^verbatim>\<open>'__all__'\<close>.\<close>

datatype StatusValue = status_all | streaming | standard | failed

datatype TabType = request_headers | request_body | response_headers | response_body

text \<open>
  The payloads of the aggregate endpoints other than the heatmap are not inspected by the
  page; they are carried as opaque JSON text.
\<close>

type_synonym json = string

text \<open>The fields of \<^verbatim>\<open>UsageRecord\<close> that the page's logic reads.\<close>

record UsageRecord =
  record_id :: int
  api_key :: "string option"
  success :: bool
  status_code :: "int option"
  is_streaming :: bool

subsection \<open>getDateRangeFromPeriod\<close>

text \<open>
  Instants are counted in days: the argument is the local midnight that begins the
  current day, as \<^verbatim>\<open>new Date(now.getFullYear(), now.getMonth(), now.getDate())\<close> builds
  it, and \<^verbatim>\<open>setDate(getDate() - n)\<close> moves it n days back.
\<close>

record date_range =
  start_time :: "int option"
  end_time :: "int option"

definition getDateRangeFromPeriod :: "int \<Rightarrow> PeriodValue \<Rightarrow> date_range" where
  "getDateRangeFromPeriod midnight period =
     (case period of
        today \<Rightarrow> \<lparr> start_time = Some midnight, end_time = None \<rparr>
      | yesterday \<Rightarrow> \<lparr> start_time = Some (midnight - 1), end_time = Some midnight \<rparr>
      | last7days \<Rightarrow> \<lparr> start_time = Some (midnight - 7), end_time = None \<rparr>
      | last30days \<Rightarrow> \<lparr> start_time = Some (midnight - 30), end_time = None \<rparr>
      | last90days \<Rightarrow> \<lparr> start_time = Some (midnight - 90), end_time = None \<rparr>)"

subsection \<open>Component state\<close>

text \<open>
  One field per \<^verbatim>\<open>useState\<close> of \<^verbatim>\<open>UsageRecordsPage\<close>, and the connection status
  read from the auth store. A value of this type is also what a render closes over: the
  callbacks \<^verbatim>\<open>loadRecords\<close>, \<^verbatim>\<open>loadAnalytics\<close> and \<^verbatim>\<open>loadFilterOptions\<close> of a render
  read that render's values, while their \<^verbatim>\<open>set...\<close> calls update the current state.
\<close>

record page_state =
  connectionStatus :: string
  records :: "UsageRecord list"
  loading :: bool
  error :: string
  total :: int
  page :: int
  pageSize :: int
  selectedPeriod :: PeriodValue
  modelFilter :: string
  providerFilter :: string
  statusFilter :: StatusValue
  selectedRecord :: "UsageRecord option"
  detailLoading :: bool
  activeTab :: TabType
  autoRefresh :: bool
  heatmapData :: "ActivityHeatmapData option"
  heatmapLoading :: bool
  heatmapError :: bool
  modelStats :: "json list"
  modelStatsLoading :: bool
  modelStatsError :: bool
  usageSummary :: "json option"
  summaryLoading :: bool
  summaryError :: bool
  providerStats :: "json list"
  providerStatsLoading :: bool
  providerStatsError :: bool
  timelineData :: "json option"
  timelineLoading :: bool
  timelineError :: bool
  filterOptionsLoading :: bool
  availableModels :: "string list"
  availableProviders :: "string list"

definition initial_state :: "string \<Rightarrow> page_state" where
  "initial_state conn =
     \<lparr> connectionStatus = conn, records = [], loading = True, error = [], total = 0,
       page = 1, pageSize = 20, selectedPeriod = today, modelFilter = ''__all__'',
       providerFilter = ''__all__'', statusFilter = status_all, selectedRecord = None,
       detailLoading = False, activeTab = request_body, autoRefresh = False,
       heatmapData = None, heatmapLoading = True, heatmapError = False,
       modelStats = [], modelStatsLoading = True, modelStatsError = False,
       usageSummary = None, summaryLoading = True, summaryError = False,
       providerStats = [], providerStatsLoading = True, providerStatsError = False,
       timelineData = None, timelineLoading = True, timelineError = False,
       filterOptionsLoading = True, availableModels = [], availableProviders = [] \<rparr>"

subsection \<open>Backend requests and responses\<close>

record UsageRecordsListQuery =
  q_page :: int
  q_page_size :: int
  q_sort_by :: string
  q_sort_order :: string
  q_start_time :: "int option"
  q_end_time :: "int option"
  q_model :: "string option"
  q_provider :: "string option"

datatype request =
    ListReq UsageRecordsListQuery
  | GetByIdReq int
  | HeatmapReq int
  | ModelStatsReq date_range
  | SummaryReq date_range
  | ProviderStatsReq date_range
  | TimelineReq date_range
  | OptionsReq date_range

text \<open>
  What an awaited call yields: the resolved value of its endpoint, or a rejection with
  the text of \<^verbatim>\<open>err instanceof Error ? err.message : String(err)\<close>. The list fields
  that the code guards with \<^verbatim>\<open>|| []\<close> may be absent.
\<close>

datatype response =
    ListResponse "UsageRecord list option" int
  | RecordResponse UsageRecord
  | HeatmapResponse ActivityHeatmapData
  | ModelStatsResponse "json list option"
  | SummaryResponse json
  | ProviderStatsResponse "json list option"
  | TimelineResponse json
  | OptionsResponse "string list option" "string list option"
  | Rejected string

text \<open>The translation lookup \<^verbatim>\<open>t\<close> is external; a text is modelled by its key.\<close>

definition translate :: "string \<Rightarrow> string" where
  "translate key = key"

subsection \<open>loadRecords\<close>

text \<open>
  The callback of the status filter. \<^verbatim>\<open>record.status_code && record.status_code >= 400\<close>
  is truthy when the code is present, not 0, and at least 400.
\<close>

definition status_matches :: "StatusValue \<Rightarrow> UsageRecord \<Rightarrow> bool" where
  "status_matches sf r =
     (if sf = streaming then is_streaming r \<and> success r
      else if sf = standard then \<not> is_streaming r \<and> success r
      else if sf = failed then
        \<not> success r \<or> (case status_code r of None \<Rightarrow> False | Some c \<Rightarrow> c \<noteq> 0 \<and> c \<ge> 400)
      else True)"

text \<open>
  \<^verbatim>\<open>loadRecords(resetPage, isSilent)\<close> up to its \<^verbatim>\<open>await\<close>: \<open>c\<close> is the render the
  callback belongs to, \<open>s\<close> the current state. The result is the new state and the query
  sent, if any.
\<close>

definition loadRecords_start ::
  "page_state \<Rightarrow> int \<Rightarrow> bool \<Rightarrow> bool \<Rightarrow> page_state \<Rightarrow> page_state \<times> UsageRecordsListQuery option" where
  "loadRecords_start c midnight resetPage isSilent s =
     (if connectionStatus c \<noteq> ''connected'' then (s\<lparr> loading := False \<rparr>, None)
      else
        (let s1 = (if \<not> isSilent then s\<lparr> loading := True \<rparr> else s);
             s2 = s1\<lparr> error := [] \<rparr>;
             currentPage = (if resetPage then 1 else page c);
             s3 = (if resetPage then s2\<lparr> page := 1 \<rparr> else s2);
             dateRange = getDateRangeFromPeriod midnight (selectedPeriod c);
             query = \<lparr> q_page = currentPage, q_page_size = pageSize c,
                       q_sort_by = ''timestamp'', q_sort_order = ''desc'',
                       q_start_time = start_time dateRange, q_end_time = end_time dateRange,
                       q_model = (if modelFilter c \<noteq> ''__all__'' then Some (modelFilter c) else None),
                       q_provider = (if providerFilter c \<noteq> ''__all__''
                                     then Some (providerFilter c) else None) \<rparr>
         in (s3, Some query)))"

text \<open>The rest of \<^verbatim>\<open>loadRecords\<close>, run when the awaited list call settles.\<close>

definition loadRecords_finish :: "page_state \<Rightarrow> bool \<Rightarrow> response \<Rightarrow> page_state \<Rightarrow> page_state" where
  "loadRecords_finish c isSilent resp s =
     (let s1 =
        (case resp of
           ListResponse recs tot \<Rightarrow>
             (let fetched = (case recs of None \<Rightarrow> [] | Some rs \<Rightarrow> rs);
                  filteredRecords = (if statusFilter c \<noteq> status_all
                                     then filter (status_matches (statusFilter c)) fetched
                                     else fetched)
              in s\<lparr> records := filteredRecords, total := tot \<rparr>)
         | Rejected message \<Rightarrow>
             (if \<not> isSilent
              then s\<lparr> error := (if message \<noteq> [] then message
                                  else translate ''usage_records.load_error'') \<rparr>
              else s)
         | _ \<Rightarrow> s)
      in if \<not> isSilent then s1\<lparr> loading := False \<rparr> else s1)"

subsection \<open>loadRecordDetail\<close>

definition loadRecordDetail_start :: "int \<Rightarrow> page_state \<Rightarrow> page_state \<times> request" where
  "loadRecordDetail_start rid s = (s\<lparr> detailLoading := True \<rparr>, GetByIdReq rid)"

text \<open>The second component is the notification shown, if any.\<close>

definition loadRecordDetail_finish :: "response \<Rightarrow> page_state \<Rightarrow> page_state \<times> string option" where
  "loadRecordDetail_finish resp s =
     (case resp of
        RecordResponse r \<Rightarrow> (s\<lparr> selectedRecord := Some r, detailLoading := False \<rparr>, None)
      | Rejected message \<Rightarrow>
          (s\<lparr> detailLoading := False \<rparr>,
           Some (if message \<noteq> [] then message else translate ''usage_records.load_detail_error''))
      | _ \<Rightarrow> (s\<lparr> detailLoading := False \<rparr>, None))"

subsection \<open>loadFilterOptions\<close>

definition loadFilterOptions_start ::
  "page_state \<Rightarrow> int \<Rightarrow> page_state \<Rightarrow> page_state \<times> request option" where
  "loadFilterOptions_start c midnight s =
     (if connectionStatus c \<noteq> ''connected'' then (s, None)
      else (s\<lparr> filterOptionsLoading := True \<rparr>,
            Some (OptionsReq (getDateRangeFromPeriod midnight (selectedPeriod c)))))"

text \<open>\<^verbatim>\<open>(xs || []).filter(Boolean).sort()\<close>: the empty string is the falsy string.\<close>

definition clean_options :: "string list option \<Rightarrow> string list" where
  "clean_options xs = sort (filter (\<lambda>x. x \<noteq> []) (case xs of None \<Rightarrow> [] | Some ys \<Rightarrow> ys))"

definition loadFilterOptions_finish :: "response \<Rightarrow> page_state \<Rightarrow> page_state" where
  "loadFilterOptions_finish resp s =
     (case resp of
        OptionsResponse models providers \<Rightarrow>
          s\<lparr> availableModels := clean_options models,
             availableProviders := clean_options providers,
             filterOptionsLoading := False \<rparr>
      | _ \<Rightarrow> s\<lparr> availableModels := [], availableProviders := [], filterOptionsLoading := False \<rparr>)"

subsection \<open>loadAnalytics\<close>

text \<open>
  \<^verbatim>\<open>loadAnalytics\<close> awaits its five calls one after the other. Each section raises its
  loading flag and clears its error flag, sends its request, and on the answer stores the
  data or sets the error flag and lowers the loading flag.
\<close>

datatype analytics_section =
  HeatmapSection | ModelStatsSection | SummarySection | ProviderStatsSection | TimelineSection

fun section_begin :: "analytics_section \<Rightarrow> date_range \<Rightarrow> page_state \<Rightarrow> page_state \<times> request" where
  "section_begin HeatmapSection dr s =
     (s\<lparr> heatmapLoading := True, heatmapError := False \<rparr>, HeatmapReq 500)"
| "section_begin ModelStatsSection dr s =
     (s\<lparr> modelStatsLoading := True, modelStatsError := False \<rparr>, ModelStatsReq dr)"
| "section_begin SummarySection dr s =
     (s\<lparr> summaryLoading := True, summaryError := False \<rparr>, SummaryReq dr)"
| "section_begin ProviderStatsSection dr s =
     (s\<lparr> providerStatsLoading := True, providerStatsError := False \<rparr>, ProviderStatsReq dr)"
| "section_begin TimelineSection dr s =
     (s\<lparr> timelineLoading := True, timelineError := False \<rparr>, TimelineReq dr)"

fun section_end :: "analytics_section \<Rightarrow> response \<Rightarrow> page_state \<Rightarrow> page_state" where
  "section_end HeatmapSection resp s =
     (case resp of
        HeatmapResponse d \<Rightarrow> s\<lparr> heatmapData := Some d, heatmapLoading := False \<rparr>
      | _ \<Rightarrow> s\<lparr> heatmapError := True, heatmapLoading := False \<rparr>)"
| "section_end ModelStatsSection resp s =
     (case resp of
        ModelStatsResponse ms \<Rightarrow>
          s\<lparr> modelStats := (case ms of None \<Rightarrow> [] | Some xs \<Rightarrow> xs), modelStatsLoading := False \<rparr>
      | _ \<Rightarrow> s\<lparr> modelStatsError := True, modelStatsLoading := False \<rparr>)"
| "section_end SummarySection resp s =
     (case resp of
        SummaryResponse d \<Rightarrow> s\<lparr> usageSummary := Some d, summaryLoading := False \<rparr>
      | _ \<Rightarrow> s\<lparr> summaryError := True, summaryLoading := False \<rparr>)"
| "section_end ProviderStatsSection resp s =
     (case resp of
        ProviderStatsResponse ps \<Rightarrow>
          s\<lparr> providerStats := (case ps of None \<Rightarrow> [] | Some xs \<Rightarrow> xs),
             providerStatsLoading := False \<rparr>
      | _ \<Rightarrow> s\<lparr> providerStatsError := True, providerStatsLoading := False \<rparr>)"
| "section_end TimelineSection resp s =
     (case resp of
        TimelineResponse d \<Rightarrow> s\<lparr> timelineData := Some d, timelineLoading := False \<rparr>
      | _ \<Rightarrow> s\<lparr> timelineError := True, timelineLoading := False \<rparr>)"

fun next_section :: "analytics_section \<Rightarrow> analytics_section option" where
  "next_section HeatmapSection = Some ModelStatsSection"
| "next_section ModelStatsSection = Some SummarySection"
| "next_section SummarySection = Some ProviderStatsSection"
| "next_section ProviderStatsSection = Some TimelineSection"
| "next_section TimelineSection = None"

text \<open>\<^verbatim>\<open>loadAnalytics\<close> up to its first \<^verbatim>\<open>await\<close>.\<close>

definition loadAnalytics_start :: "page_state \<Rightarrow> page_state \<Rightarrow> page_state \<times> request option" where
  "loadAnalytics_start c s =
     (if connectionStatus c \<noteq> ''connected'' then (s, None)
      else (case section_begin HeatmapSection \<lparr> start_time = None, end_time = None \<rparr> s of
              (s', req) \<Rightarrow> (s', Some req)))"

text \<open>
  From the answer of one section to the next \<^verbatim>\<open>await\<close> (or the end): \<open>dr\<close> is the date
  range, computed once after the heatmap section from the period of the render \<open>c\<close>.
\<close>

definition loadAnalytics_continue ::
  "analytics_section \<Rightarrow> date_range \<Rightarrow> response \<Rightarrow> page_state
     \<Rightarrow> page_state \<times> (analytics_section \<times> request) option" where
  "loadAnalytics_continue sec dr resp s =
     (let s1 = section_end sec resp s
      in case next_section sec of
           None \<Rightarrow> (s1, None)
         | Some nxt \<Rightarrow> (case section_begin nxt dr s1 of (s2, req) \<Rightarrow> (s2, Some (nxt, req))))"

subsection \<open>The page as an event-driven system\<close>

text \<open>
  What is in flight: an awaited call together with what the rest of its function closes
  over (the render \<open>c\<close> of the callback, the \<^verbatim>\<open>isSilent\<close> argument, the date range).
\<close>

datatype pending =
    RecordsPending page_state bool
  | DetailPending
  | OptionsPending
  | AnalyticsPending analytics_section page_state date_range

text \<open>
  The component state, the clock (the local midnight that begins the current day), the
  two timer handles (\<^verbatim>\<open>filterTimeoutRef\<close>, \<^verbatim>\<open>autoRefreshIntervalRef\<close>: the milliseconds
  left and the render whose callback the timer holds), the calls in flight, the requests
  sent so far and the notifications shown.
\<close>

record world =
  component :: page_state
  now_midnight :: int
  filterTimeout :: "(nat \<times> page_state) option"
  autoRefreshInterval :: "(nat \<times> page_state) option"
  pending :: "pending list"
  sent :: "request list"
  notifications :: "string list"

definition call_loadRecords :: "page_state \<Rightarrow> bool \<Rightarrow> bool \<Rightarrow> world \<Rightarrow> world" where
  "call_loadRecords c resetPage isSilent w =
     (case loadRecords_start c (now_midnight w) resetPage isSilent (component w) of
        (s', None) \<Rightarrow> w\<lparr> component := s' \<rparr>
      | (s', Some query) \<Rightarrow>
          w\<lparr> component := s', sent := sent w @ [ListReq query],
             pending := pending w @ [RecordsPending c isSilent] \<rparr>)"

definition call_loadAnalytics :: "page_state \<Rightarrow> world \<Rightarrow> world" where
  "call_loadAnalytics c w =
     (case loadAnalytics_start c (component w) of
        (s', None) \<Rightarrow> w\<lparr> component := s' \<rparr>
      | (s', Some req) \<Rightarrow>
          w\<lparr> component := s', sent := sent w @ [req],
             pending := pending w
               @ [AnalyticsPending HeatmapSection c \<lparr> start_time = None, end_time = None \<rparr>] \<rparr>)"

definition call_loadFilterOptions :: "page_state \<Rightarrow> world \<Rightarrow> world" where
  "call_loadFilterOptions c w =
     (case loadFilterOptions_start c (now_midnight w) (component w) of
        (s', None) \<Rightarrow> w\<lparr> component := s' \<rparr>
      | (s', Some req) \<Rightarrow>
          w\<lparr> component := s', sent := sent w @ [req], pending := pending w @ [OptionsPending] \<rparr>)"

definition call_loadRecordDetail :: "int \<Rightarrow> world \<Rightarrow> world" where
  "call_loadRecordDetail rid w =
     (case loadRecordDetail_start rid (component w) of
        (s', req) \<Rightarrow>
          w\<lparr> component := s', sent := sent w @ [req], pending := pending w @ [DetailPending] \<rparr>)"

text \<open>
  The dependency arrays of the four effects. \<^verbatim>\<open>loadRecords\<close> and \<^verbatim>\<open>loadAnalytics\<close> are
  \<^verbatim>\<open>useCallback\<close> values, which change when their own dependencies do (\<^verbatim>\<open>t\<close> is taken
  as stable).
\<close>

definition filter_deps :: "page_state \<Rightarrow> PeriodValue \<times> string \<times> string \<times> StatusValue" where
  "filter_deps s = (selectedPeriod s, modelFilter s, providerFilter s, statusFilter s)"

definition page_deps :: "page_state \<Rightarrow> int \<times> int \<times> string" where
  "page_deps s = (page s, pageSize s, connectionStatus s)"

definition analytics_deps :: "page_state \<Rightarrow> string \<times> PeriodValue" where
  "analytics_deps s = (connectionStatus s, selectedPeriod s)"

definition loadRecords_deps ::
  "page_state \<Rightarrow> string \<times> int \<times> int \<times> PeriodValue \<times> string \<times> string \<times> StatusValue" where
  "loadRecords_deps s =
     (connectionStatus s, page s, pageSize s, selectedPeriod s, modelFilter s,
      providerFilter s, statusFilter s)"

text \<open>
  The effect bodies, run for the render \<open>c\<close>. Setting a timer replaces the one the
  handle held: the cleanup of the previous run (and the body itself) has cleared it.
\<close>

definition filter_effect :: "page_state \<Rightarrow> world \<Rightarrow> world" where
  "filter_effect c w = w\<lparr> filterTimeout := Some (300, c) \<rparr>"

definition page_effect :: "page_state \<Rightarrow> world \<Rightarrow> world" where
  "page_effect c w = call_loadRecords c False False w"

definition analytics_effect :: "page_state \<Rightarrow> world \<Rightarrow> world" where
  "analytics_effect c w = call_loadFilterOptions c (call_loadAnalytics c w)"

text \<open>The two calls that auto-refresh makes at once and again on every interval tick.\<close>

definition refresh_now :: "page_state \<Rightarrow> world \<Rightarrow> world" where
  "refresh_now c w = call_loadAnalytics c (call_loadRecords c False True w)"

definition autoRefresh_effect :: "page_state \<Rightarrow> world \<Rightarrow> world" where
  "autoRefresh_effect c w =
     (if autoRefresh c then (refresh_now c w)\<lparr> autoRefreshInterval := Some (5000, c) \<rparr>
      else w\<lparr> autoRefreshInterval := None \<rparr>)"

text \<open>
  After a render, the effects whose dependencies differ from those of the previous
  render \<open>old\<close> run in the order they are declared, all for the new render. None of them
  changes a dependency of any effect, so the render they cause runs no further effect.
\<close>

definition run_effects :: "page_state \<Rightarrow> world \<Rightarrow> world" where
  "run_effects old w =
     (let c = component w;
          w1 = (if filter_deps old \<noteq> filter_deps c then filter_effect c w else w);
          w2 = (if page_deps old \<noteq> page_deps c then page_effect c w1 else w1);
          w3 = (if analytics_deps old \<noteq> analytics_deps c then analytics_effect c w2 else w2)
      in if (autoRefresh old, loadRecords_deps old, analytics_deps old)
              \<noteq> (autoRefresh c, loadRecords_deps c, analytics_deps c)
         then autoRefresh_effect c w3 else w3)"

text \<open>The first render: every effect runs.\<close>

definition mount :: "string \<Rightarrow> int \<Rightarrow> world" where
  "mount conn midnight =
     (let c = initial_state conn;
          w = \<lparr> component = c, now_midnight = midnight, filterTimeout = None,
                autoRefreshInterval = None, pending = [], sent = [], notifications = [] \<rparr>
      in autoRefresh_effect c (analytics_effect c (page_effect c (filter_effect c w))))"

datatype event =
    SetSelectedPeriod PeriodValue
  | SetModelFilter string
  | SetProviderFilter string
  | SetStatusFilter StatusValue
  | ToggleAutoRefresh
  | HandlePageChange int
  | HandlePageSizeChange int
  | HandleRowClick int
  | HandleCloseDrawer
  | HeaderRefresh
  | ConnectionStatusChanged string
  | Elapse nat
  | Resolve nat response

text \<open>The event handlers and setters: what they do before the next render.\<close>

fun handler :: "event \<Rightarrow> world \<Rightarrow> world" where
  "handler (SetSelectedPeriod p) w = w\<lparr> component := (component w)\<lparr> selectedPeriod := p \<rparr> \<rparr>"
| "handler (SetModelFilter m) w = w\<lparr> component := (component w)\<lparr> modelFilter := m \<rparr> \<rparr>"
| "handler (SetProviderFilter p) w = w\<lparr> component := (component w)\<lparr> providerFilter := p \<rparr> \<rparr>"
| "handler (SetStatusFilter f) w = w\<lparr> component := (component w)\<lparr> statusFilter := f \<rparr> \<rparr>"
| "handler ToggleAutoRefresh w = w\<lparr> component := (component w)\<lparr> autoRefresh := \<not> autoRefresh (component w) \<rparr> \<rparr>"
| "handler (HandlePageChange newPage) w = w\<lparr> component := (component w)\<lparr> page := newPage \<rparr> \<rparr>"
| "handler (HandlePageSizeChange newSize) w =
     w\<lparr> component := (component w)\<lparr> pageSize := newSize, page := 1 \<rparr> \<rparr>"
| "handler (HandleRowClick rid) w =
     call_loadRecordDetail rid (w\<lparr> component := (component w)\<lparr> activeTab := request_body \<rparr> \<rparr>)"
| "handler HandleCloseDrawer w = w\<lparr> component := (component w)\<lparr> selectedRecord := None \<rparr> \<rparr>"
| "handler HeaderRefresh w = call_loadRecords (component w) False False w"
| "handler (ConnectionStatusChanged status) w =
     w\<lparr> component := (component w)\<lparr> connectionStatus := status \<rparr> \<rparr>"
| "handler (Elapse n) w = w"
| "handler (Resolve i resp) w = w"

text \<open>One millisecond passes: a timer that runs out calls the callback it holds.\<close>

definition tick_filterTimeout :: "world \<Rightarrow> world" where
  "tick_filterTimeout w =
     (case filterTimeout w of
        None \<Rightarrow> w
      | Some (r, c) \<Rightarrow>
          if r \<le> 1
          then run_effects (component w) (call_loadRecords c True False (w\<lparr> filterTimeout := None \<rparr>))
          else w\<lparr> filterTimeout := Some (r - 1, c) \<rparr>)"

definition tick_autoRefreshInterval :: "world \<Rightarrow> world" where
  "tick_autoRefreshInterval w =
     (case autoRefreshInterval w of
        None \<Rightarrow> w
      | Some (r, c) \<Rightarrow>
          if r \<le> 1
          then run_effects (component w) (refresh_now c (w\<lparr> autoRefreshInterval := Some (5000, c) \<rparr>))
          else w\<lparr> autoRefreshInterval := Some (r - 1, c) \<rparr>)"

definition tick :: "world \<Rightarrow> world" where
  "tick w = tick_autoRefreshInterval (tick_filterTimeout w)"

text \<open>
  The call in flight at position \<open>i\<close> settles with \<open>resp\<close>, and the rest of its function
  runs. A response of another endpoint's type is not what the typed client can deliver
  and is handled like a rejection where the code has a \<^verbatim>\<open>catch\<close>.
\<close>

definition resolve :: "nat \<Rightarrow> response \<Rightarrow> world \<Rightarrow> world" where
  "resolve i resp w =
     (if i < length (pending w) then
        (let rest = take i (pending w) @ drop (Suc i) (pending w);
             w0 = w\<lparr> pending := rest \<rparr>
         in case pending w ! i of
              RecordsPending c isSilent \<Rightarrow>
                w0\<lparr> component := loadRecords_finish c isSilent resp (component w) \<rparr>
            | DetailPending \<Rightarrow>
                (case loadRecordDetail_finish resp (component w) of
                   (s', None) \<Rightarrow> w0\<lparr> component := s' \<rparr>
                 | (s', Some msg) \<Rightarrow> w0\<lparr> component := s', notifications := notifications w @ [msg] \<rparr>)
            | OptionsPending \<Rightarrow> w0\<lparr> component := loadFilterOptions_finish resp (component w) \<rparr>
            | AnalyticsPending sec c dr \<Rightarrow>
                (let dr' = (if sec = HeatmapSection
                            then getDateRangeFromPeriod (now_midnight w) (selectedPeriod c)
                            else dr)
                 in case loadAnalytics_continue sec dr' resp (component w) of
                      (s', None) \<Rightarrow> w0\<lparr> component := s' \<rparr>
                    | (s', Some (nxt, req)) \<Rightarrow>
                        w0\<lparr> component := s', sent := sent w @ [req],
                            pending := rest @ [AnalyticsPending nxt c dr'] \<rparr>))
      else w)"

text \<open>One event, followed by the render it causes and that render's effects.\<close>

fun step :: "world \<Rightarrow> event \<Rightarrow> world" where
  "step w (Elapse n) = (tick ^^ n) w"
| "step w (Resolve i resp) = run_effects (component w) (resolve i resp w)"
| "step w ev = run_effects (component w) (handler ev w)"

definition run :: "world \<Rightarrow> event list \<Rightarrow> world" where
  "run w evs = foldl step w evs"

text \<open>The list queries among the requests sent.\<close>

fun list_queries :: "request list \<Rightarrow> UsageRecordsListQuery list" where
  "list_queries [] = []"
| "list_queries (ListReq q # rs) = q # list_queries rs"
| "list_queries (r # rs) = list_queries rs"

text \<open>A world showing the state \<open>s\<close> with no timer pending and no call in flight.\<close>

definition settled :: "page_state \<Rightarrow> world" where
  "settled s =
     \<lparr> component = s, now_midnight = 0, filterTimeout = None, autoRefreshInterval = None,
       pending = [], sent = [], notifications = [] \<rparr>"

text \<open>
  The page after its first loads have settled: connected, page 3 of 100 records, no
  loading flag up.
\<close>

definition example_state :: page_state where
  "example_state =
     (initial_state ''connected'')
       \<lparr> loading := False, total := 100, page := 3, heatmapLoading := False,
         modelStatsLoading := False, summaryLoading := False, providerStatsLoading := False,
         timelineLoading := False, filterOptionsLoading := False \<rparr>"



text \<open>
  The page after its first loads have settled on page 1, with two records and analytics
  data on display; and the same page after the connection was lost.
\<close>

definition loaded_state :: page_state where
  "loaded_state =
     example_state
       \<lparr> page := 1, total := 2,
         records :=
           [\<lparr> record_id = 7, api_key = Some ''sk-abcdefghijkl'', success = True,
              status_code = Some 200, is_streaming = False \<rparr>,
            \<lparr> record_id = 8, api_key = None, success = False,
              status_code = Some 500, is_streaming = True \<rparr>],
         heatmapData := Some \<lparr> days = feed (2024, 1, 31) 2, max_requests = 1 \<rparr>,
         modelStats := [''model-a''], usageSummary := Some ''summary'',
         providerStats := [''provider-a''], timelineData := Some ''timeline'' \<rparr>"

definition offline_state :: page_state where
  "offline_state = loaded_state\<lparr> connectionStatus := ''disconnected'' \<rparr>"

text \<open>Everything an effect's dependency array can see of a state.\<close>

definition effect_deps ::
  "page_state \<Rightarrow> bool \<times> string \<times> int \<times> int \<times> PeriodValue \<times> string \<times> string \<times> StatusValue" where
  "effect_deps s = (autoRefresh s, loadRecords_deps s)"

section \<open>Theorems\<close>

subsection \<open>Calendar arithmetic and the layout loop\<close>

lemma div_step:
  fixes a n :: int
  assumes n: "0 < n"
  shows "(a + 1) div n = a div n + (if (a + 1) mod n = 0 then 1 else 0)"
proof -
  define q where "q = a div n"
  define r where "r = a mod n"
  have a: "a = n * q + r" by (simp add: q_def r_def)
  have r: "0 \<le> r" "r < n" using n by (simp_all add: r_def)
  show ?thesis
  proof (cases "r + 1 = n")
    case True
    then have e: "a + 1 = n * (q + 1) + 0" using a by (simp add: algebra_simps)
    have "(a + 1) div n = q + 1" by (rule int_div_pos_eq [OF e]) (use n in simp_all)
    moreover have "(a + 1) mod n = 0" by (rule int_mod_pos_eq [OF e]) (use n in simp_all)
    ultimately show ?thesis by (simp add: q_def)
  next
    case False
    then have lt: "r + 1 < n" using r by simp
    have e: "a + 1 = n * q + (r + 1)" using a by simp
    have "(a + 1) div n = q" by (rule int_div_pos_eq [OF e]) (use r lt in simp_all)
    moreover have "(a + 1) mod n = r + 1" by (rule int_mod_pos_eq [OF e]) (use r lt in simp_all)
    ultimately show ?thesis using r by (simp add: q_def)
  qed
qed

lemma mod_shift: "(y - k * n) mod n = y mod (n::int)"
  by (metis mod_mult_self2 diff_conv_add_uminus mult_minus_right mult.commute)

lemma DayFromYear_Suc: "DayFromYear (y + 1) = DayFromYear y + (if is_leap y then 366 else 365)"
proof -
  have a: "(y - 1968) div 4 = (y - 1969) div 4 + (if y mod 4 = 0 then 1 else 0)"
    using div_step [of 4 "y - 1969"] mod_shift [of y 492 4] by simp
  have b: "(y - 1900) div 100 = (y - 1901) div 100 + (if y mod 100 = 0 then 1 else 0)"
    using div_step [of 100 "y - 1901"] mod_shift [of y 19 100] by simp
  have c: "(y - 1600) div 400 = (y - 1601) div 400 + (if y mod 400 = 0 then 1 else 0)"
    using div_step [of 400 "y - 1601"] mod_shift [of y 4 400] by simp
  have d: "y mod 100 = 0 \<Longrightarrow> y mod 4 = 0"
    by (simp add: mod_eq_0_iff_dvd) (rule dvd_trans [of 4 100 y], simp_all)
  have e: "y mod 400 = 0 \<Longrightarrow> y mod 100 = 0"
    by (simp add: mod_eq_0_iff_dvd) (rule dvd_trans [of 100 400 y], simp_all)
  have f: "DayFromYear (y + 1) =
      365 * (y - 1970) + 365 + (y - 1968) div 4 - (y - 1900) div 100 + (y - 1600) div 400"
    by (simp add: DayFromYear_def)
  show ?thesis
  proof (cases "y mod 4 = 0")
    case False
    with d e have "y mod 100 \<noteq> 0" "y mod 400 \<noteq> 0" by auto
    with False show ?thesis unfolding f a b c by (simp add: DayFromYear_def is_leap_def)
  next
    case y4: True
    show ?thesis
    proof (cases "y mod 100 = 0")
      case False
      with e have "y mod 400 \<noteq> 0" by auto
      with y4 False show ?thesis unfolding f a b c by (simp add: DayFromYear_def is_leap_def)
    next
      case True
      with y4 show ?thesis unfolding f a b c
        by (cases "y mod 400 = 0") (simp_all add: DayFromYear_def is_leap_def)
    qed
  qed
qed

lemma MakeDay_next_day:
  assumes "1 \<le> m" "m \<le> 12" "1 \<le> d" "d \<le> days_in_month y m"
  shows "(case next_day (y, m, d) of (y', m', d') \<Rightarrow> MakeDay y' m' d') = MakeDay y m d + 1"
proof -
  have "m = 1 \<or> m = 2 \<or> m = 3 \<or> m = 4 \<or> m = 5 \<or> m = 6
    \<or> m = 7 \<or> m = 8 \<or> m = 9 \<or> m = 10 \<or> m = 11 \<or> m = 12"
    using assms(1,2) by presburger
  then consider "m = 1" | "m = 2" | "m = 3" | "m = 4" | "m = 5" | "m = 6"
    | "m = 7" | "m = 8" | "m = 9" | "m = 10" | "m = 11" | "m = 12"
    by blast
  then show ?thesis
  proof cases
    case 12
    with assms(3,4) show ?thesis
      by (simp add: MakeDay_def days_before_month_def days_in_month_def DayFromYear_Suc)
  qed (use assms(3,4) in \<open>simp_all add: MakeDay_def days_before_month_def days_in_month_def\<close>)
qed

lemma parse_date_valid:
  "parse_date s = Some (y, m, d) \<Longrightarrow> 1 \<le> m \<and> m \<le> 12 \<and> 1 \<le> d \<and> d \<le> days_in_month y m"
  by (auto simp: parse_date_def split: if_splits option.splits)

lemma parse_date_Nil: "parse_date [] = None"
  by (simp add: parse_date_def)

lemma WeekDay_Suc: "WeekDay (x + 1) = Suc (WeekDay x) mod 7"
proof -
  have r: "0 \<le> (x + 4) mod 7" by simp
  have "x + 5 = x + 4 + 1" by simp
  then have "(x + 5) mod 7 = ((x + 4) mod 7 + 1) mod 7"
    by (simp only: mod_add_left_eq)
  then have "nat ((x + 5) mod 7) = nat ((x + 4) mod 7 + 1) mod 7"
    using r by (simp add: nat_mod_distrib)
  also have "nat ((x + 4) mod 7 + 1) = Suc (nat ((x + 4) mod 7))"
    using r by (simp add: nat_add_distrib)
  finally show ?thesis by (simp add: WeekDay_def add.commute)
qed

lemma WeekDay_lt7: "WeekDay x < 7"
  by (simp add: WeekDay_def nat_less_iff)

lemma getUTCDay_parse:
  "parse_date s = Some (y, m, d) \<Longrightarrow> getUTCDay (new_Date s) = Some (WeekDay (MakeDay y m d))"
  by (simp add: new_Date_def)

lemma getUTCMonth_parse:
  "parse_date s = Some (y, m, d) \<Longrightarrow> getUTCMonth (new_Date s) = Some (m - 1)"
  by (simp add: new_Date_def)

lemma weekday_next:
  assumes "parse_date s = Some c" "parse_date s' = Some (next_day c)"
    and "getUTCDay (new_Date s) = Some w"
  shows "getUTCDay (new_Date s') = Some (Suc w mod 7)"
proof -
  obtain y m d where c: "c = (y, m, d)" by (cases c) auto
  obtain y' m' d' where n: "next_day (y, m, d) = (y', m', d')" by (cases "next_day (y, m, d)") auto
  have v: "1 \<le> m \<and> m \<le> 12 \<and> 1 \<le> d \<and> d \<le> days_in_month y m"
    using assms(1) c parse_date_valid by blast
  have "MakeDay y' m' d' = MakeDay y m d + 1"
    using MakeDay_next_day [of m d y] v n by simp
  moreover have "w = WeekDay (MakeDay y m d)"
    using assms(1,3) c by (simp add: getUTCDay_parse)
  moreover have "getUTCDay (new_Date s') = Some (WeekDay (MakeDay y' m' d'))"
    using assms(2) c n by (simp add: getUTCDay_parse)
  ultimately show ?thesis by (simp add: WeekDay_Suc)
qed

lemma contiguous_valid: "contiguous ds \<Longrightarrow> d \<in> set ds \<Longrightarrow> parse_date (date d) \<noteq> None"
  by (induction ds rule: contiguous.induct) (auto split: option.splits)

lemma contiguous_tail: "contiguous (d # ds) \<Longrightarrow> contiguous ds"
  by (cases ds) (auto split: option.splits)

lemma weeks_layout_step:
  "weeks (layout_step st day) =
     (if getUTCDay (new_Date (date day)) = Some 6 then weeks st @ [currentWeek st @ [day]]
      else weeks st)"
  by (simp add: layout_step_def Let_def)

lemma currentWeek_layout_step:
  "currentWeek (layout_step st day) =
     (if getUTCDay (new_Date (date day)) = Some 6 then [] else currentWeek st @ [day])"
  by (simp add: layout_step_def Let_def)

lemma monthLabels_layout_step:
  "monthLabels (layout_step st day) =
     (if js_neq (getUTCMonth (new_Date (date day))) (currentMonth st)
      then monthLabels st @ [\<lparr> month = MONTHS_at (getUTCMonth (new_Date (date day))),
                               colStart = length (weeks st) \<rparr>]
      else monthLabels st)"
  by (simp add: layout_step_def Let_def)

lemma currentMonth_layout_step:
  "currentMonth (layout_step st day) =
     (if js_neq (getUTCMonth (new_Date (date day))) (currentMonth st)
      then getUTCMonth (new_Date (date day)) else currentMonth st)"
  by (simp add: layout_step_def Let_def)

lemma layout_step_week_invariant:
  assumes w: "getUTCDay (new_Date (date d)) = Some (length (currentWeek st))"
    and a: "\<forall>w\<in>set (weeks st). length w = 7"
  shows "(\<forall>w\<in>set (weeks (layout_step st d)). length w = 7)
    \<and> length (currentWeek (layout_step st d)) = Suc (length (currentWeek st)) mod 7
    \<and> concat (weeks (layout_step st d)) @ currentWeek (layout_step st d)
        = concat (weeks st) @ currentWeek st @ [d]"
proof -
  have lt: "length (currentWeek st) < 7"
  proof (cases "new_Date (date d)")
    case InvalidDate
    with w show ?thesis by simp
  next
    case (UTCDate y m dd)
    with w have "length (currentWeek st) = WeekDay (MakeDay y m dd)" by simp
    then show ?thesis by (simp add: WeekDay_lt7)
  qed
  show ?thesis
  proof (cases "length (currentWeek st) = 6")
    case True
    then show ?thesis using w a by (simp add: weeks_layout_step currentWeek_layout_step)
  next
    case False
    with lt have "Suc (length (currentWeek st)) < 7" by simp
    then show ?thesis using w a False by (simp add: weeks_layout_step currentWeek_layout_step)
  qed
qed

lemma layout_loop_weeks:
  "contiguous (d # ds) \<Longrightarrow>
   getUTCDay (new_Date (date d)) = Some (length (currentWeek st)) \<Longrightarrow>
   \<forall>w\<in>set (weeks st). length w = 7 \<Longrightarrow>
   (\<forall>w\<in>set (weeks (foldl layout_step st (d # ds))). length w = 7)
   \<and> length (currentWeek (foldl layout_step st (d # ds))) < 7
   \<and> concat (weeks (foldl layout_step st (d # ds))) @ currentWeek (foldl layout_step st (d # ds))
       = concat (weeks st) @ currentWeek st @ d # ds"
proof (induction ds arbitrary: d st)
  case Nil
  from layout_step_week_invariant [OF Nil(2,3)] show ?case by simp
next
  case (Cons e ds)
  let ?st1 = "layout_step st d"
  note inv = layout_step_week_invariant [OF Cons.prems(2,3)]
  obtain c where c: "parse_date (date d) = Some c" "parse_date (date e) = Some (next_day c)"
    and ce: "contiguous (e # ds)"
    using Cons.prems(1) by (auto split: option.splits)
  have "getUTCDay (new_Date (date e)) = Some (Suc (length (currentWeek st)) mod 7)"
    using weekday_next [OF c Cons.prems(2)] .
  then have e: "getUTCDay (new_Date (date e)) = Some (length (currentWeek ?st1))"
    using inv by simp
  from Cons.IH [OF ce e] inv
  show ?case by simp
qed


lemma layout_nonempty:
  "ds \<noteq> [] \<Longrightarrow>
   layout (Some \<lparr> days = ds, max_requests = mx \<rparr>) =
     ((if length (currentWeek (foldl layout_step (layout_init ds) ds)) > 0
       then weeks (foldl layout_step (layout_init ds) ds)
            @ [currentWeek (foldl layout_step (layout_init ds) ds)
               @ replicate (7 - length (currentWeek (foldl layout_step (layout_init ds) ds)))
                   padding_day]
       else weeks (foldl layout_step (layout_init ds) ds)),
      monthLabels (foldl layout_step (layout_init ds) ds))"
  by (simp add: layout_def layout_init_def Let_def)

lemma filter_padding_replicate: "filter (\<lambda>d. \<not> is_padding d) (replicate n padding_day) = []"
  by (simp add: is_padding_def padding_day_def)

lemma valid_not_padding: "parse_date (date d) \<noteq> None \<Longrightarrow> \<not> is_padding d"
  by (auto simp: is_padding_def parse_date_Nil)

lemma filter_padding_valid:
  "\<forall>d\<in>set ds. parse_date (date d) \<noteq> None \<Longrightarrow> filter (\<lambda>d. \<not> is_padding d) ds = ds"
  by (induction ds) (simp_all add: valid_not_padding)

text \<open>
  C1. For a non-empty day sequence without calendar gaps (every date names a calendar day
  and each day is the calendar successor of the one before), the layout returns weeks of
  exactly 7 entries each, and the concatenation of the weeks with the padding entries
  (empty date, -1 requests) removed is the input sequence.
\<close>

theorem layout_weeks_roundtrip:
  assumes ne: "ds \<noteq> []" and co: "contiguous ds"
  shows "filter (\<lambda>d. \<not> is_padding d) (concat (fst (layout (Some \<lparr> days = ds, max_requests = mx \<rparr>)))) = ds
       \<and> (\<forall>w \<in> set (fst (layout (Some \<lparr> days = ds, max_requests = mx \<rparr>))). length w = 7)"
proof -
  obtain d rest where ds: "ds = d # rest" using ne by (cases ds) auto
  have valid: "\<forall>x\<in>set ds. parse_date (date x) \<noteq> None"
    using co contiguous_valid by blast
  then obtain y m dd where p: "parse_date (date d) = Some (y, m, dd)"
    using ds by fastforce
  define w where "w = WeekDay (MakeDay y m dd)"
  have gd: "getUTCDay (new_Date (date d)) = Some w"
    using p by (simp add: getUTCDay_parse w_def)
  define st0 where "st0 = layout_init ds"
  have st0: "weeks st0 = []" "currentWeek st0 = replicate w padding_day"
    using gd ds by (simp_all add: st0_def layout_init_def)
  define st where "st = foldl layout_step st0 ds"
  have "getUTCDay (new_Date (date d)) = Some (length (currentWeek st0))"
    using gd st0 by simp
  moreover have "\<forall>wk\<in>set (weeks st0). length wk = 7" using st0 by simp
  ultimately have loop:
    "\<forall>wk\<in>set (weeks st). length wk = 7"
    "length (currentWeek st) < 7"
    "concat (weeks st) @ currentWeek st = replicate w padding_day @ ds"
    using layout_loop_weeks [of d rest st0] co ds st0 by (simp_all add: st_def)
  let ?ws = "fst (layout (Some \<lparr> days = ds, max_requests = mx \<rparr>))"
  have ws: "?ws = (if length (currentWeek st) > 0
      then weeks st @ [currentWeek st @ replicate (7 - length (currentWeek st)) padding_day]
      else weeks st)"
    using ne by (simp add: layout_nonempty st_def st0_def)
  have len: "\<forall>wk\<in>set ?ws. length wk = 7"
    using loop(1,2) by (auto simp: ws)
  have "\<exists>k. concat ?ws = concat (weeks st) @ currentWeek st @ replicate k padding_day"
  proof (cases "length (currentWeek st) > 0")
    case True
    then show ?thesis by (auto simp: ws)
  next
    case False
    then have "concat ?ws = concat (weeks st) @ currentWeek st @ replicate 0 padding_day"
      by (simp add: ws)
    then show ?thesis by blast
  qed
  then obtain k where "concat ?ws = (concat (weeks st) @ currentWeek st) @ replicate k padding_day"
    by auto
  then have "concat ?ws = replicate w padding_day @ ds @ replicate k padding_day"
    using loop(3) by simp
  then have "filter (\<lambda>d. \<not> is_padding d) (concat ?ws) = ds"
    using valid by (simp add: filter_padding_replicate filter_padding_valid)
  with len show ?thesis by blast
qed

theorem layout_weeks_roundtrip_witness:
  "filter (\<lambda>d. \<not> is_padding d)
     (concat (fst (layout (Some \<lparr> days =
        [\<lparr> date = ''2024-01-31'', requests = 3, total_tokens = 10 \<rparr>,
         \<lparr> date = ''2024-02-01'', requests = 0, total_tokens = 0 \<rparr>], max_requests = 3 \<rparr>))))
     = [\<lparr> date = ''2024-01-31'', requests = 3, total_tokens = 10 \<rparr>,
        \<lparr> date = ''2024-02-01'', requests = 0, total_tokens = 0 \<rparr>]
   \<and> map length (fst (layout (Some \<lparr> days =
        [\<lparr> date = ''2024-01-31'', requests = 3, total_tokens = 10 \<rparr>,
         \<lparr> date = ''2024-02-01'', requests = 0, total_tokens = 0 \<rparr>], max_requests = 3 \<rparr>)))
     = [7]"
proof -
  let ?ds = "[\<lparr> date = ''2024-01-31'', requests = 3, total_tokens = 10 \<rparr>,
       \<lparr> date = ''2024-02-01'', requests = (0::int), total_tokens = (0::int) \<rparr>]"
  have c: "contiguous ?ds"
    by code_simp
  have n: "?ds \<noteq> []" by simp
  have k: "map length (fst (layout (Some \<lparr> days = ?ds, max_requests = 3 \<rparr>))) = [7]"
    by code_simp
  from layout_weeks_roundtrip [OF n c, of 3] k show ?thesis by blast
qed

subsection \<open>Month labels\<close>

lemma layout_loop_sorted:
  "sorted (map colStart (monthLabels st)) \<Longrightarrow>
   \<forall>l\<in>set (monthLabels st). colStart l \<le> length (weeks st) \<Longrightarrow>
   sorted (map colStart (monthLabels (foldl layout_step st ds)))
   \<and> (\<forall>l\<in>set (monthLabels (foldl layout_step st ds)).
        colStart l \<le> length (weeks (foldl layout_step st ds)))"
proof (induction ds arbitrary: st)
  case Nil
  then show ?case by simp
next
  case (Cons d ds)
  have a: "sorted (map colStart (monthLabels (layout_step st d)))"
    using Cons.prems by (auto simp: monthLabels_layout_step sorted_append)
  have b: "\<forall>l\<in>set (monthLabels (layout_step st d)). colStart l \<le> length (weeks (layout_step st d))"
    using Cons.prems(2) by (auto simp: monthLabels_layout_step weeks_layout_step le_SucI)
  from Cons.IH [OF a b] show ?case by simp
qed

lemma getUTCMonth_valid:
  "parse_date (date d) \<noteq> None \<Longrightarrow> getUTCMonth (new_Date (date d)) = Some (utc_month d)"
  by (auto simp: utc_month_def year_month_def new_Date_def)

lemma layout_loop_months:
  "\<forall>d\<in>set ds. parse_date (date d) \<noteq> None \<Longrightarrow> currentMonth st = Some cm \<Longrightarrow>
   map month (monthLabels (foldl layout_step st ds)) =
     map month (monthLabels st)
       @ map (\<lambda>k. MONTHS_at (Some k)) (tl (remdups_adj (cm # map utc_month ds)))"
proof (induction ds arbitrary: st cm)
  case Nil
  then show ?case by simp
next
  case (Cons d ds)
  have g: "getUTCMonth (new_Date (date d)) = Some (utc_month d)"
    using Cons.prems(1) by (simp add: getUTCMonth_valid)
  have v: "\<forall>d\<in>set ds. parse_date (date d) \<noteq> None" using Cons.prems(1) by simp
  show ?case
  proof (cases "utc_month d = cm")
    case True
    then have cm1: "currentMonth (layout_step st d) = Some cm"
      and l1: "monthLabels (layout_step st d) = monthLabels st"
      using g Cons.prems(2) by (simp_all add: currentMonth_layout_step monthLabels_layout_step js_neq_def)
    from Cons.IH [OF v cm1] l1 True show ?thesis by simp
  next
    case False
    then have cm1: "currentMonth (layout_step st d) = Some (utc_month d)"
      and l1: "monthLabels (layout_step st d) = monthLabels st
        @ [\<lparr> month = MONTHS_at (Some (utc_month d)), colStart = length (weeks st) \<rparr>]"
      using g Cons.prems(2) by (simp_all add: currentMonth_layout_step monthLabels_layout_step js_neq_def)
    have t: "tl (remdups_adj (cm # map utc_month (d # ds)))
        = remdups_adj (utc_month d # map utc_month ds)"
      using False by simp
    have "map (\<lambda>k. MONTHS_at (Some k)) (remdups_adj (utc_month d # map utc_month ds))
        = MONTHS_at (Some (utc_month d))
          # map (\<lambda>k. MONTHS_at (Some k)) (tl (remdups_adj (utc_month d # map utc_month ds)))"
      by (metis list.simps(9) remdups_adj_Cons_alt)
    with Cons.IH [OF v cm1] l1 show ?thesis unfolding t by simp
  qed
qed

lemma remdups_adj_map_successively:
  "successively (\<lambda>a b. g a = g b \<longrightarrow> a = b) xs \<Longrightarrow> remdups_adj (map g xs) = map g (remdups_adj xs)"
  by (induction xs rule: remdups_adj.induct) (auto simp: successively_Cons)

lemma sorted_key_remdups_adj:
  fixes f :: "'a \<Rightarrow> int"
  shows "sorted (map f xs) \<Longrightarrow> inj_on f (set xs) \<Longrightarrow> remdups_adj xs = remdups xs"
proof (induction xs)
  case Nil
  then show ?case by simp
next
  case (Cons x xs)
  have IH: "remdups_adj xs = remdups xs" using Cons by simp
  show ?case
  proof (cases xs)
    case Nil
    then show ?thesis by simp
  next
    case (Cons y ys)
    show ?thesis
    proof (cases "x \<in> set xs")
      case True
      have "f y \<le> f x" using True Cons.prems(1) Cons by auto
      moreover have "f x \<le> f y" using Cons.prems(1) Cons by simp
      ultimately have "f x = f y" by simp
      then have "x = y" using Cons.prems(2) Cons by (auto dest: inj_onD)
      then show ?thesis using IH True Cons by simp
    next
      case False
      then have "x \<noteq> y" using Cons by auto
      then show ?thesis using IH False Cons by simp
    qed
  qed
qed

lemma contiguous_step:
  assumes "contiguous (d # e # ds)"
  shows "year_month e = year_month d
     \<or> (snd (year_month e) \<noteq> snd (year_month d)
        \<and> month_index (year_month e) = month_index (year_month d) + 1)"
proof -
  obtain c where c: "parse_date (date d) = Some c" "parse_date (date e) = Some (next_day c)"
    using assms by (auto split: option.splits)
  obtain y m dd where cc: "c = (y, m, dd)" by (cases c) auto
  have "m \<le> 12" using c(1) cc parse_date_valid by blast
  then show ?thesis
    using c cc by (auto simp: year_month_def month_index_def)
qed

lemma contiguous_successively:
  "contiguous ds \<Longrightarrow>
   successively (\<lambda>a b. snd a - 1 = snd b - 1 \<longrightarrow> a = b) (map year_month ds)"
proof (induction ds rule: contiguous.induct)
  case (3 d e ds)
  have "contiguous (e # ds)" using 3(2) by (auto split: option.splits)
  moreover obtain c where "parse_date (date d) = Some c" using 3(2) by (auto split: option.splits)
  ultimately show ?case using 3(1) contiguous_step [OF 3(2)] by auto
qed simp_all

lemma contiguous_sorted:
  "contiguous ds \<Longrightarrow> sorted (map month_index (map year_month ds))"
proof (induction ds rule: contiguous.induct)
  case (3 d e ds)
  have "contiguous (e # ds)" using 3(2) by (auto split: option.splits)
  moreover obtain c where "parse_date (date d) = Some c" using 3(2) by (auto split: option.splits)
  ultimately show ?case using 3(1) contiguous_step [OF 3(2)] by auto
qed simp_all

lemma year_month_valid:
  "parse_date (date d) \<noteq> None \<Longrightarrow> 1 \<le> snd (year_month d) \<and> snd (year_month d) \<le> 12"
  using parse_date_valid by (fastforce simp: year_month_def)

lemma month_index_inj:
  "contiguous ds \<Longrightarrow> inj_on month_index (set (map year_month ds))"
proof (rule inj_onI)
  fix a b
  assume co: "contiguous ds" and a: "a \<in> set (map year_month ds)" and b: "b \<in> set (map year_month ds)"
    and e: "month_index a = month_index b"
  have "1 \<le> snd a \<and> snd a \<le> 12" using a co contiguous_valid year_month_valid by auto
  moreover have "1 \<le> snd b \<and> snd b \<le> 12" using b co contiguous_valid year_month_valid by auto
  ultimately have "fst a = fst b \<and> snd a = snd b" using e unfolding month_index_def by arith
  then show "a = b" by (simp add: prod_eq_iff)
qed

lemma contiguous_months:
  assumes "contiguous ds"
  shows "remdups_adj (map utc_month ds) = map (\<lambda>ym. snd ym - 1) (remdups (map year_month ds))"
proof -
  have e: "map utc_month ds = map (\<lambda>ym. snd ym - 1) (map year_month ds)"
    by (simp add: utc_month_def)
  have "remdups_adj (map utc_month ds) = map (\<lambda>ym. snd ym - 1) (remdups_adj (map year_month ds))"
    unfolding e by (rule remdups_adj_map_successively [OF contiguous_successively [OF assms]])
  also have "remdups_adj (map year_month ds) = remdups (map year_month ds)"
    using sorted_key_remdups_adj [OF contiguous_sorted [OF assms] month_index_inj [OF assms]] .
  finally show ?thesis .
qed

lemma utc_month_nonneg: "parse_date (date d) \<noteq> None \<Longrightarrow> 0 \<le> utc_month d"
  using year_month_valid [of d] by (simp add: utc_month_def)

text \<open>
  In a gap-free feed a label other than the first is pushed on the first day of a month,
  and the next one at least 28 days later, so a Saturday has closed a week in between.
\<close>

lemma days_in_month_ge: "28 \<le> days_in_month y m"
  by (simp add: days_in_month_def)

lemma contiguous_step_day:
  assumes "contiguous (p # d # ds)"
  shows "(utc_month d = utc_month p \<and> day_of_month d = day_of_month p + 1)
     \<or> (utc_month d \<noteq> utc_month p \<and> day_of_month d = 1 \<and> 28 \<le> day_of_month p)"
proof -
  obtain c where c: "parse_date (date p) = Some c" "parse_date (date d) = Some (next_day c)"
    using assms by (auto split: option.splits)
  obtain y m dd where cc: "c = (y, m, dd)" by (cases c) auto
  have v: "m \<le> 12" "dd \<le> days_in_month y m" using c(1) cc parse_date_valid by blast+
  show ?thesis
  proof (cases "dd < days_in_month y m")
    case True
    then show ?thesis using c cc by (simp add: utc_month_def year_month_def day_of_month_def)
  next
    case False
    with v have "dd = days_in_month y m" by simp
    then have "28 \<le> dd" using days_in_month_ge [of y m] by simp
    then show ?thesis using c cc False v(1)
      by (auto simp: utc_month_def year_month_def day_of_month_def)
  qed
qed

lemma currentWeek_length_step:
  assumes "getUTCDay (new_Date (date d)) = Some (length (currentWeek st))"
  shows "length (currentWeek (layout_step st d)) = Suc (length (currentWeek st)) mod 7"
proof -
  have lt: "length (currentWeek st) < 7"
  proof (cases "new_Date (date d)")
    case InvalidDate
    with assms show ?thesis by simp
  next
    case (UTCDate y m dd)
    with assms have "length (currentWeek st) = WeekDay (MakeDay y m dd)" by simp
    then show ?thesis by (simp add: WeekDay_lt7)
  qed
  show ?thesis
  proof (cases "length (currentWeek st) = 6")
    case True
    then show ?thesis using assms by (simp add: currentWeek_layout_step)
  next
    case False
    with lt have "Suc (length (currentWeek st)) < 7" by simp
    then show ?thesis using assms False by (simp add: currentWeek_layout_step)
  qed
qed

lemma layout_step_strict:
  assumes co: "contiguous (p # d # ds)"
    and wk: "getUTCDay (new_Date (date d)) = Some (length (currentWeek st))"
    and cm: "currentMonth st = Some (utc_month p)"
    and le: "\<forall>l\<in>set (monthLabels st). colStart l \<le> length (weeks st)"
    and ss: "sorted_wrt (<) (map colStart (tl (monthLabels st)))"
    and ne: "monthLabels st \<noteq> []"
    and la: "(\<forall>l\<in>set (tl (monthLabels st)). colStart l < length (weeks st))
              \<or> day_of_month p \<le> int (length (currentWeek st))"
  shows "currentMonth (layout_step st d) = Some (utc_month d)
     \<and> (\<forall>l\<in>set (monthLabels (layout_step st d)). colStart l \<le> length (weeks (layout_step st d)))
     \<and> sorted_wrt (<) (map colStart (tl (monthLabels (layout_step st d))))
     \<and> monthLabels (layout_step st d) \<noteq> []
     \<and> hd (monthLabels (layout_step st d)) = hd (monthLabels st)
     \<and> ((\<forall>l\<in>set (tl (monthLabels (layout_step st d))).
            colStart l < length (weeks (layout_step st d)))
          \<or> day_of_month d \<le> int (length (currentWeek (layout_step st d))))"
proof -
  have vd: "parse_date (date d) \<noteq> None" using co by (auto split: option.splits)
  have gm: "getUTCMonth (new_Date (date d)) = Some (utc_month d)"
    using vd by (rule getUTCMonth_valid)
  have lt: "length (currentWeek st) < 7"
  proof (cases "new_Date (date d)")
    case InvalidDate
    with wk show ?thesis by simp
  next
    case (UTCDate y m dd)
    with wk have "length (currentWeek st) = WeekDay (MakeDay y m dd)" by simp
    then show ?thesis by (simp add: WeekDay_lt7)
  qed
  from contiguous_step_day [OF co] show ?thesis
  proof
    assume same: "utc_month d = utc_month p \<and> day_of_month d = day_of_month p + 1"
    then have lab: "monthLabels (layout_step st d) = monthLabels st"
      and cm': "currentMonth (layout_step st d) = Some (utc_month d)"
      using gm cm by (simp_all add: monthLabels_layout_step currentMonth_layout_step js_neq_def)
    show ?thesis
    proof (cases "length (currentWeek st) = 6")
      case True
      then have w: "weeks (layout_step st d) = weeks st @ [currentWeek st @ [d]]"
        using wk by (simp add: weeks_layout_step)
      have "\<forall>l\<in>set (tl (monthLabels st)). colStart l < length (weeks (layout_step st d))"
        using le ne w by (auto dest!: list.set_sel(2) simp: less_Suc_eq_le)
      then show ?thesis using lab cm' le ss ne w by auto
    next
      case False
      then have w: "weeks (layout_step st d) = weeks st"
        and k: "currentWeek (layout_step st d) = currentWeek st @ [d]"
        using wk by (simp_all add: weeks_layout_step currentWeek_layout_step)
      from la same have "(\<forall>l\<in>set (tl (monthLabels st)). colStart l < length (weeks st))
          \<or> day_of_month d \<le> int (length (currentWeek st @ [d]))"
        by auto
      then show ?thesis using lab cm' le ss ne w k by auto
    qed
  next
    assume diff: "utc_month d \<noteq> utc_month p \<and> day_of_month d = 1 \<and> 28 \<le> day_of_month p"
    then have lab: "monthLabels (layout_step st d) = monthLabels st
        @ [\<lparr> month = MONTHS_at (Some (utc_month d)), colStart = length (weeks st) \<rparr>]"
      and cm': "currentMonth (layout_step st d) = Some (utc_month d)"
      using gm cm by (simp_all add: monthLabels_layout_step currentMonth_layout_step js_neq_def)
    have "\<not> day_of_month p \<le> int (length (currentWeek st))" using diff lt by simp
    with la have all: "\<forall>l\<in>set (tl (monthLabels st)). colStart l < length (weeks st)" by blast
    have tl': "tl (monthLabels (layout_step st d)) = tl (monthLabels st)
        @ [\<lparr> month = MONTHS_at (Some (utc_month d)), colStart = length (weeks st) \<rparr>]"
      using ne lab by simp
    have ss': "sorted_wrt (<) (map colStart (tl (monthLabels (layout_step st d))))"
      unfolding tl' using ss all by (simp add: sorted_wrt_append)
    have hd': "hd (monthLabels (layout_step st d)) = hd (monthLabels st)"
      using ne lab by simp
    have ne': "monthLabels (layout_step st d) \<noteq> []" using lab by simp
    show ?thesis
    proof (cases "length (currentWeek st) = 6")
      case True
      then have w: "weeks (layout_step st d) = weeks st @ [currentWeek st @ [d]]"
        using wk by (simp add: weeks_layout_step)
      have le': "\<forall>l\<in>set (monthLabels (layout_step st d)).
          colStart l \<le> length (weeks (layout_step st d))"
        using le lab w by auto
      have "\<forall>l\<in>set (tl (monthLabels (layout_step st d))).
          colStart l < length (weeks (layout_step st d))"
        unfolding tl' using all w by auto
      then show ?thesis using cm' le' ss' ne' hd' by blast
    next
      case False
      then have w: "weeks (layout_step st d) = weeks st"
        and k: "currentWeek (layout_step st d) = currentWeek st @ [d]"
        using wk by (simp_all add: weeks_layout_step currentWeek_layout_step)
      have le': "\<forall>l\<in>set (monthLabels (layout_step st d)).
          colStart l \<le> length (weeks (layout_step st d))"
        using le lab w by auto
      have "day_of_month d \<le> int (length (currentWeek (layout_step st d)))"
        using diff k by simp
      then show ?thesis using cm' le' ss' ne' hd' by blast
    qed
  qed
qed


lemma layout_loop_strict:
  "contiguous (p # ds) \<Longrightarrow>
   getUTCDay (new_Date (date p)) = Some wp \<Longrightarrow>
   length (currentWeek st) = Suc wp mod 7 \<Longrightarrow>
   currentMonth st = Some (utc_month p) \<Longrightarrow>
   \<forall>l\<in>set (monthLabels st). colStart l \<le> length (weeks st) \<Longrightarrow>
   sorted_wrt (<) (map colStart (tl (monthLabels st))) \<Longrightarrow>
   monthLabels st \<noteq> [] \<Longrightarrow>
   (\<forall>l\<in>set (tl (monthLabels st)). colStart l < length (weeks st))
     \<or> day_of_month p \<le> int (length (currentWeek st)) \<Longrightarrow>
   sorted_wrt (<) (map colStart (tl (monthLabels (foldl layout_step st ds))))
   \<and> hd (monthLabels (foldl layout_step st ds)) = hd (monthLabels st)"
proof (induction ds arbitrary: p st wp)
  case Nil
  then show ?case by simp
next
  case (Cons d rest)
  obtain c where c: "parse_date (date p) = Some c" "parse_date (date d) = Some (next_day c)"
    and cr: "contiguous (d # rest)"
    using Cons.prems(1) by (auto split: option.splits)
  have wk: "getUTCDay (new_Date (date d)) = Some (length (currentWeek st))"
    using weekday_next [OF c Cons.prems(2)] Cons.prems(3) by simp
  note step = layout_step_strict [OF Cons.prems(1) wk Cons.prems(4,5,6,7,8)]
  have len: "length (currentWeek (layout_step st d)) = Suc (length (currentWeek st)) mod 7"
    using wk by (rule currentWeek_length_step)
  have "sorted_wrt (<) (map colStart (tl (monthLabels (foldl layout_step (layout_step st d) rest))))
      \<and> hd (monthLabels (foldl layout_step (layout_step st d) rest))
          = hd (monthLabels (layout_step st d))"
    using step by (intro Cons.IH [OF cr wk len]) blast+
  then show ?case using step by simp
qed

lemma layout_first_step:
  assumes "parse_date (date d) \<noteq> None"
  shows "monthLabels (layout_step (layout_init (d # rest)) d)
       = [\<lparr> month = MONTHS_at (Some (utc_month d)), colStart = 0 \<rparr>]
     \<and> currentMonth (layout_step (layout_init (d # rest)) d) = Some (utc_month d)"
proof -
  have "getUTCMonth (new_Date (date d)) = Some (utc_month d)"
    using assms by (rule getUTCMonth_valid)
  moreover have "utc_month d \<noteq> - 1" using utc_month_nonneg [OF assms] by simp
  ultimately show ?thesis
    by (simp add: monthLabels_layout_step currentMonth_layout_step js_neq_def layout_init_def)
qed

lemma layout_labels_strict:
  assumes ne: "ds \<noteq> []" and co: "contiguous ds"
  shows "sorted_wrt (<) (map colStart (tl (snd (layout (Some \<lparr> days = ds, max_requests = mx \<rparr>)))))
     \<and> colStart (hd (snd (layout (Some \<lparr> days = ds, max_requests = mx \<rparr>)))) = 0"
proof -
  obtain d rest where ds: "ds = d # rest" using ne by (cases ds) auto
  have vd: "parse_date (date d) \<noteq> None" using co ds contiguous_valid by auto
  then obtain y m dd where p: "parse_date (date d) = Some (y, m, dd)" by auto
  define w where "w = WeekDay (MakeDay y m dd)"
  have gd: "getUTCDay (new_Date (date d)) = Some w"
    using p by (simp add: getUTCDay_parse w_def)
  let ?st0 = "layout_init (d # rest)"
  let ?st1 = "layout_step ?st0 d"
  have wk0: "getUTCDay (new_Date (date d)) = Some (length (currentWeek ?st0))"
    using gd by (simp add: layout_init_def)
  have len: "length (currentWeek ?st1) = Suc w mod 7"
    using currentWeek_length_step [OF wk0] gd by (simp add: layout_init_def)
  note first = layout_first_step [OF vd, of rest]
  have lab: "monthLabels ?st1 = [\<lparr> month = MONTHS_at (Some (utc_month d)), colStart = 0 \<rparr>]"
    and cm: "currentMonth ?st1 = Some (utc_month d)"
    using first by simp_all
  have i1: "\<forall>l\<in>set (monthLabels ?st1). colStart l \<le> length (weeks ?st1)"
    and i2: "sorted_wrt (<) (map colStart (tl (monthLabels ?st1)))"
    and i3: "monthLabels ?st1 \<noteq> []"
    and i4: "(\<forall>l\<in>set (tl (monthLabels ?st1)). colStart l < length (weeks ?st1))
       \<or> day_of_month d \<le> int (length (currentWeek ?st1))"
    unfolding lab by simp_all
  have co': "contiguous (d # rest)" using co ds by simp
  note loop = layout_loop_strict [OF co' gd len cm i1 i2 i3 i4]
  moreover have "snd (layout (Some \<lparr> days = ds, max_requests = mx \<rparr>))
      = monthLabels (foldl layout_step ?st1 rest)"
    using ds by (simp add: layout_nonempty)
  ultimately show ?thesis by (simp add: lab)
qed

text \<open>
  C2 (amended). For a non-empty day sequence without calendar gaps, the first month
  label is in week column 0 and the columns are strictly increasing from the second label
  on; only the first two labels can share a column (when the second month begins in the
  week the input starts in), so over all labels the columns are non-decreasing. The labels
  are, in order, the names of the distinct calendar months (year and month) of the input:
  one label per calendar month present.
\<close>

theorem monthLabels_spec:
  assumes ne: "ds \<noteq> []" and co: "contiguous ds"
  shows "colStart (hd (snd (layout (Some \<lparr> days = ds, max_requests = mx \<rparr>)))) = 0
       \<and> sorted_wrt (<) (map colStart (tl (snd (layout (Some \<lparr> days = ds, max_requests = mx \<rparr>)))))
       \<and> sorted (map colStart (snd (layout (Some \<lparr> days = ds, max_requests = mx \<rparr>))))
       \<and> map month (snd (layout (Some \<lparr> days = ds, max_requests = mx \<rparr>)))
           = map (\<lambda>ym. MONTHS_at (Some (snd ym - 1))) (remdups (map year_month ds))
       \<and> length (snd (layout (Some \<lparr> days = ds, max_requests = mx \<rparr>)))
           = card (year_month ` set ds)"
proof -
  let ?st0 = "layout_init ds"
  let ?labels = "snd (layout (Some \<lparr> days = ds, max_requests = mx \<rparr>))"
  have labels: "?labels = monthLabels (foldl layout_step ?st0 ds)"
    using ne by (simp add: layout_nonempty)
  have valid: "\<forall>x\<in>set ds. parse_date (date x) \<noteq> None"
    using co contiguous_valid by blast
  have "sorted (map colStart (monthLabels ?st0))"
    and "\<forall>l\<in>set (monthLabels ?st0). colStart l \<le> length (weeks ?st0)"
    by (simp_all add: layout_init_def)
  then have s: "sorted (map colStart ?labels)"
    using layout_loop_sorted [of ?st0 ds] labels by simp
  have cm: "currentMonth ?st0 = Some (- 1)" by (simp add: layout_init_def)
  obtain d rest where ds: "ds = d # rest" using ne by (cases ds) auto
  have "utc_month d \<noteq> - 1" using utc_month_nonneg [of d] valid ds by auto
  then have "tl (remdups_adj (- 1 # map utc_month ds)) = remdups_adj (map utc_month ds)"
    using ds by simp
  then have "map month ?labels = map (\<lambda>k. MONTHS_at (Some k)) (remdups_adj (map utc_month ds))"
    using layout_loop_months [OF valid cm] labels by (simp add: layout_init_def)
  then have m: "map month ?labels
      = map (\<lambda>ym. MONTHS_at (Some (snd ym - 1))) (remdups (map year_month ds))"
    by (simp add: contiguous_months [OF co] comp_def)
  have "length ?labels = length (map month ?labels)" by simp
  also have "\<dots> = length (remdups (map year_month ds))" unfolding m by simp
  also have "\<dots> = card (year_month ` set ds)" by (simp add: length_remdups_card_conv)
  finally show ?thesis using s m layout_labels_strict [OF ne co, of mx] by blast
qed


theorem monthLabels_spec_witness:
  "map colStart (snd (layout (Some \<lparr> days = feed (2024, 1, 31) 40, max_requests = 1 \<rparr>)))
     = [0, 0, 4]
   \<and> map month (snd (layout (Some \<lparr> days = feed (2024, 1, 31) 40, max_requests = 1 \<rparr>)))
     = [Some (''1'' @ yue), Some (''2'' @ yue), Some (''3'' @ yue)]
   \<and> length (feed (2024, 1, 31) 40) = 40"
proof -
  have c: "contiguous (feed (2024, 1, 31) 40)" by code_simp
  have n: "feed (2024, 1, 31) 40 \<noteq> []" by code_simp
  have r: "map (\<lambda>ym. MONTHS_at (Some (snd ym - 1)))
        (remdups (map year_month (feed (2024, 1, 31) 40)))
      = [Some (''1'' @ yue), Some (''2'' @ yue), Some (''3'' @ yue)]"
    by code_simp
  have k: "map colStart (snd (layout (Some \<lparr> days = feed (2024, 1, 31) 40, max_requests = 1 \<rparr>)))
      = [0, 0, 4]"
    by code_simp
  have l: "length (feed (2024, 1, 31) 40) = 40" by code_simp
  from monthLabels_spec [OF n c, of 1] r k l show ?thesis by simp
qed

text \<open>
  C2 as stated fails: for 31 January and 1 February 2024, which fall in one week, both
  labels get column 0, so the indices are not strictly increasing; and for the
  chronological sequence 15 January 2024, 15 January 2025 (with a gap) there is one label
  for two calendar months.
\<close>

theorem monthLabels_strict_counterexample:
  "\<not> sorted_wrt (<) (map colStart (snd (layout (Some \<lparr> days =
        [\<lparr> date = ''2024-01-31'', requests = 3, total_tokens = 10 \<rparr>,
         \<lparr> date = ''2024-02-01'', requests = 1, total_tokens = 2 \<rparr>], max_requests = 3 \<rparr>))))
   \<and> length (snd (layout (Some \<lparr> days =
        [\<lparr> date = ''2024-01-15'', requests = 3, total_tokens = 10 \<rparr>,
         \<lparr> date = ''2025-01-15'', requests = 1, total_tokens = 2 \<rparr>], max_requests = 3 \<rparr>)))
      \<noteq> length (remdups (map year_month
        [\<lparr> date = ''2024-01-15'', requests = 3, total_tokens = 10 \<rparr>,
         \<lparr> date = ''2025-01-15'', requests = 1, total_tokens = 2 \<rparr>]))"
  by code_simp

subsection \<open>Responsive truncation\<close>

lemma updateVisibleWeeks_range:
  "0 < n \<Longrightarrow> 1 \<le> updateVisibleWeeks width n \<and> updateVisibleWeeks width n \<le> n"
  by (auto simp: updateVisibleWeeks_def Let_def)

text \<open>
  C3 (amended). For a positive container width and at least one week, the visible week
  count is floor((width - 20 + 3) / (11 + 3)) clamped to [1, totalWeeks]; for a width of 0
  or less the count is totalWeeks (all weeks stay visible). In both cases the visible
  weeks are the trailing count-many weeks, and the visible month labels are those whose
  column is at least the first visible column, re-based by subtracting it.
\<close>

theorem visible_weeks_spec:
  "(0 < width \<and> ws \<noteq> [] \<longrightarrow>
      updateVisibleWeeks width (length ws)
        = nat (min (max ((width - 20 + 3) div (11 + 3)) 1) (int (length ws)))
      \<and> 1 \<le> updateVisibleWeeks width (length ws)
      \<and> updateVisibleWeeks width (length ws) \<le> length ws)
   \<and> (width \<le> 0 \<longrightarrow> updateVisibleWeeks width (length ws) = length ws)
   \<and> visibleWeeks (updateVisibleWeeks width (length ws)) ws
        = drop (length ws - updateVisibleWeeks width (length ws)) ws
   \<and> length (visibleWeeks (updateVisibleWeeks width (length ws)) ws)
        = updateVisibleWeeks width (length ws)
   \<and> visibleMonthLabels (updateVisibleWeeks width (length ws)) (length ws) labels
        = map (\<lambda>l. l\<lparr> colStart := colStart l - (length ws - updateVisibleWeeks width (length ws)) \<rparr>)
            (filter (\<lambda>l. colStart l \<ge> length ws - updateVisibleWeeks width (length ws)) labels)"
proof -
  define cnt where "cnt = updateVisibleWeeks width (length ws)"
  have le: "cnt \<le> length ws"
    by (cases "length ws = 0") (auto simp: cnt_def updateVisibleWeeks_def Let_def)
  have pos: "ws \<noteq> [] \<Longrightarrow> 1 \<le> cnt"
    using updateVisibleWeeks_range [of "length ws" width] by (simp add: cnt_def)
  have a: "0 < width \<and> ws \<noteq> [] \<longrightarrow>
      cnt = nat (min (max ((width - 20 + 3) div (11 + 3)) 1) (int (length ws)))"
    by (simp add: cnt_def updateVisibleWeeks_def Let_def CELL_SIZE_def CELL_GAP_def
        WEEKDAY_LABEL_WIDTH_def)
  have b: "width \<le> 0 \<longrightarrow> cnt = length ws"
    by (simp add: cnt_def updateVisibleWeeks_def)
  have c: "visibleWeeks cnt ws = drop (length ws - cnt) ws"
    using le pos by (cases "ws = []") (auto simp: visibleWeeks_def)
  have d: "length (visibleWeeks cnt ws) = cnt"
    using le by (simp add: c)
  have e: "visibleMonthLabels cnt (length ws) labels
        = map (\<lambda>l. l\<lparr> colStart := colStart l - (length ws - cnt) \<rparr>)
            (filter (\<lambda>l. colStart l \<ge> length ws - cnt) labels)"
  proof (cases "cnt < length ws")
    case True
    from True have "ws \<noteq> []" by auto
    with pos have "0 < cnt" by simp
    with True show ?thesis by (simp add: visibleMonthLabels_def Let_def)
  next
    case False
    with le have "length ws - cnt = 0" by simp
    then show ?thesis using False by (simp add: visibleMonthLabels_def)
  qed
  from a b c d e le pos show ?thesis unfolding cnt_def by blast
qed

theorem visible_weeks_spec_witness:
  "updateVisibleWeeks 80 (length [0, 1, 2, 3, 4, 5, 6, 7, 8, 9 :: nat]) = 4
   \<and> visibleWeeks 4 [0, 1, 2, 3, 4, 5, 6, 7, 8, 9 :: nat] = [6, 7, 8, 9]
   \<and> visibleMonthLabels 4 (length [0, 1, 2, 3, 4, 5, 6, 7, 8, 9 :: nat])
        [\<lparr> month = Some ''1'', colStart = 0 \<rparr>, \<lparr> month = Some ''2'', colStart = 5 \<rparr>,
         \<lparr> month = Some ''3'', colStart = 9 \<rparr>]
      = [\<lparr> month = Some ''3'', colStart = 3 \<rparr>]"
proof -
  have a: "updateVisibleWeeks 80 (length [0, 1, 2, 3, 4, 5, 6, 7, 8, 9 :: nat]) = 4"
    using visible_weeks_spec [of 80 "[0, 1, 2, 3, 4, 5, 6, 7, 8, 9 :: nat]" "[]"] by simp
  show ?thesis
    using visible_weeks_spec [of 80 "[0, 1, 2, 3, 4, 5, 6, 7, 8, 9 :: nat]"
      "[\<lparr> month = Some ''1'', colStart = 0 \<rparr>, \<lparr> month = Some ''2'', colStart = 5 \<rparr>,
         \<lparr> month = Some ''3'', colStart = 9 \<rparr>]"]
    unfolding a by simp
qed

text \<open>
  C3 as stated fails for a container of width 0 and 10 weeks: the guard on
  \<^verbatim>\<open>width <= 0\<close> keeps all 10 weeks, where the clamped quotient is 1.
\<close>

theorem visible_weeks_counterexample:
  "updateVisibleWeeks 0 10 = 10
   \<and> nat (min (max ((0 - WEEKDAY_LABEL_WIDTH + CELL_GAP) div (CELL_SIZE + CELL_GAP)) 1) (int 10)) = 1
   \<and> visibleWeeks (updateVisibleWeeks 0 10) [0, 1, 2, 3, 4, 5, 6, 7, 8, 9 :: nat]
       = [0, 1, 2, 3, 4, 5, 6, 7, 8, 9]"
  by (simp add: updateVisibleWeeks_def visibleWeeks_def WEEKDAY_LABEL_WIDTH_def CELL_GAP_def CELL_SIZE_def)

subsection \<open>Records page: the load operations\<close>

lemmas effect_defs =
  run_effects_def filter_effect_def page_effect_def analytics_effect_def autoRefresh_effect_def
  refresh_now_def filter_deps_def page_deps_def analytics_deps_def loadRecords_deps_def

lemmas call_defs =
  call_loadRecords_def loadRecords_start_def call_loadAnalytics_def loadAnalytics_start_def
  call_loadFilterOptions_def loadFilterOptions_start_def call_loadRecordDetail_def
  loadRecordDetail_start_def

lemmas example_defs = settled_def example_state_def initial_state_def

text \<open>
  C5. When the list call of a load made under a status filter other than
  \<^verbatim>\<open>'__all__'\<close> resolves, the records stored are exactly the fetched rows that satisfy
  the filter's classification: streaming = is_streaming and success, standard = not
  is_streaming and success, failed = not success or a status code that is present and at
  least 400. The stored total is the total of the backend response, whatever the filter.
\<close>

theorem status_filter_spec:
  "(statusFilter c = streaming \<longrightarrow>
      records (loadRecords_finish c isSilent (ListResponse (Some rs) tot) s)
        = filter (\<lambda>r. is_streaming r \<and> success r) rs)
   \<and> (statusFilter c = standard \<longrightarrow>
      records (loadRecords_finish c isSilent (ListResponse (Some rs) tot) s)
        = filter (\<lambda>r. \<not> is_streaming r \<and> success r) rs)
   \<and> (statusFilter c = failed \<longrightarrow>
      records (loadRecords_finish c isSilent (ListResponse (Some rs) tot) s)
        = filter (\<lambda>r. \<not> success r \<or> (\<exists>code. status_code r = Some code \<and> code \<ge> 400)) rs)
   \<and> (statusFilter c \<noteq> status_all \<longrightarrow>
      records (loadRecords_finish c isSilent (ListResponse None tot) s) = [])
   \<and> total (loadRecords_finish c isSilent (ListResponse (Some rs) tot) s) = tot
   \<and> total (loadRecords_finish c isSilent (ListResponse None tot) s) = tot"
proof -
  have f: "status_matches failed
      = (\<lambda>r. \<not> success r \<or> (\<exists>code. status_code r = Some code \<and> code \<ge> 400))"
    by (rule ext) (auto simp: status_matches_def split: option.splits)
  have g: "status_matches streaming = (\<lambda>r. is_streaming r \<and> success r)"
    by (rule ext) (simp add: status_matches_def)
  have h: "status_matches standard = (\<lambda>r. \<not> is_streaming r \<and> success r)"
    by (rule ext) (simp add: status_matches_def)
  show ?thesis
    by (simp add: loadRecords_finish_def Let_def f g h)
qed

theorem status_filter_spec_witness:
  "records (loadRecords_finish ((initial_state ''connected'')\<lparr> statusFilter := failed \<rparr>) False
      (ListResponse (Some
         [\<lparr> record_id = 1, api_key = None, success = False, status_code = Some 500, is_streaming = False \<rparr>,
          \<lparr> record_id = 2, api_key = None, success = True, status_code = Some 200, is_streaming = True \<rparr>,
          \<lparr> record_id = 3, api_key = None, success = True, status_code = None, is_streaming = False \<rparr>]) 57)
      (initial_state ''connected''))
     = [\<lparr> record_id = 1, api_key = None, success = False, status_code = Some 500, is_streaming = False \<rparr>]
   \<and> records (loadRecords_finish ((initial_state ''connected'')\<lparr> statusFilter := streaming \<rparr>) False
      (ListResponse (Some
         [\<lparr> record_id = 1, api_key = None, success = False, status_code = Some 500, is_streaming = False \<rparr>,
          \<lparr> record_id = 2, api_key = None, success = True, status_code = Some 200, is_streaming = True \<rparr>,
          \<lparr> record_id = 3, api_key = None, success = True, status_code = None, is_streaming = False \<rparr>]) 57)
      (initial_state ''connected''))
     = [\<lparr> record_id = 2, api_key = None, success = True, status_code = Some 200, is_streaming = True \<rparr>]
   \<and> records (loadRecords_finish ((initial_state ''connected'')\<lparr> statusFilter := standard \<rparr>) False
      (ListResponse (Some
         [\<lparr> record_id = 1, api_key = None, success = False, status_code = Some 500, is_streaming = False \<rparr>,
          \<lparr> record_id = 2, api_key = None, success = True, status_code = Some 200, is_streaming = True \<rparr>,
          \<lparr> record_id = 3, api_key = None, success = True, status_code = None, is_streaming = False \<rparr>]) 57)
      (initial_state ''connected''))
     = [\<lparr> record_id = 3, api_key = None, success = True, status_code = None, is_streaming = False \<rparr>]
   \<and> total (loadRecords_finish ((initial_state ''connected'')\<lparr> statusFilter := failed \<rparr>) False
      (ListResponse (Some
         [\<lparr> record_id = 1, api_key = None, success = False, status_code = Some 500, is_streaming = False \<rparr>,
          \<lparr> record_id = 2, api_key = None, success = True, status_code = Some 200, is_streaming = True \<rparr>,
          \<lparr> record_id = 3, api_key = None, success = True, status_code = None, is_streaming = False \<rparr>]) 57)
      (initial_state ''connected''))
     = 57"
  using
    status_filter_spec [of "(initial_state ''connected'')\<lparr> statusFilter := failed \<rparr>" False
      "[\<lparr> record_id = 1, api_key = None, success = False, status_code = Some 500, is_streaming = False \<rparr>,
          \<lparr> record_id = 2, api_key = None, success = True, status_code = Some 200, is_streaming = True \<rparr>,
          \<lparr> record_id = 3, api_key = None, success = True, status_code = None, is_streaming = False \<rparr>]"
      57 "initial_state ''connected''"]
    status_filter_spec [of "(initial_state ''connected'')\<lparr> statusFilter := streaming \<rparr>" False
      "[\<lparr> record_id = 1, api_key = None, success = False, status_code = Some 500, is_streaming = False \<rparr>,
          \<lparr> record_id = 2, api_key = None, success = True, status_code = Some 200, is_streaming = True \<rparr>,
          \<lparr> record_id = 3, api_key = None, success = True, status_code = None, is_streaming = False \<rparr>]"
      57 "initial_state ''connected''"]
    status_filter_spec [of "(initial_state ''connected'')\<lparr> statusFilter := standard \<rparr>" False
      "[\<lparr> record_id = 1, api_key = None, success = False, status_code = Some 500, is_streaming = False \<rparr>,
          \<lparr> record_id = 2, api_key = None, success = True, status_code = Some 200, is_streaming = True \<rparr>,
          \<lparr> record_id = 3, api_key = None, success = True, status_code = None, is_streaming = False \<rparr>]"
      57 "initial_state ''connected''"]
  by simp

text \<open>
  The guard of the list, analytics and filter-options loads reads the connection status
  of the render the callback belongs to: a callback of a render that is not connected sends
  nothing, and so the effects of a page that is not connected send nothing.
\<close>

lemma guarded_loads:
  "connectionStatus c \<noteq> ''connected'' \<Longrightarrow>
     sent (call_loadRecords c resetPage isSilent w) = sent w
     \<and> pending (call_loadRecords c resetPage isSilent w) = pending w
     \<and> component (call_loadRecords c resetPage isSilent w) = (component w)\<lparr> loading := False \<rparr>
     \<and> call_loadAnalytics c w = w
     \<and> call_loadFilterOptions c w = w"
  by (simp add: call_loadRecords_def loadRecords_start_def call_loadAnalytics_def
      loadAnalytics_start_def call_loadFilterOptions_def loadFilterOptions_start_def)

lemma effects_on_disconnected_page:
  assumes "connectionStatus (component w) \<noteq> ''connected''"
  shows "sent (run_effects old w) = sent w \<and> pending (run_effects old w) = pending w"
  using assms guarded_loads [of "component w"]
  by (simp add: run_effects_def filter_effect_def page_effect_def analytics_effect_def
      autoRefresh_effect_def refresh_now_def Let_def)

subsection \<open>Records page: effects and timers\<close>

text \<open>
  No effect changes what a dependency array can see, so the render that follows a run of
  the effects runs none of them again.
\<close>

lemma effect_deps_eq:
  "effect_deps s = effect_deps s' \<Longrightarrow>
   filter_deps s = filter_deps s' \<and> page_deps s = page_deps s'
   \<and> analytics_deps s = analytics_deps s' \<and> loadRecords_deps s = loadRecords_deps s'
   \<and> autoRefresh s = autoRefresh s'"
  by (simp add: effect_deps_def filter_deps_def page_deps_def analytics_deps_def
      loadRecords_deps_def)

lemma call_loadRecords_deps:
  "effect_deps (component (call_loadRecords c False isSilent w)) = effect_deps (component w)"
  by (simp add: effect_deps_def loadRecords_deps_def call_loadRecords_def loadRecords_start_def
      Let_def)

lemma call_loadAnalytics_deps:
  "effect_deps (component (call_loadAnalytics c w)) = effect_deps (component w)"
  by (simp add: effect_deps_def loadRecords_deps_def call_loadAnalytics_def
      loadAnalytics_start_def)

lemma call_loadFilterOptions_deps:
  "effect_deps (component (call_loadFilterOptions c w)) = effect_deps (component w)"
  by (simp add: effect_deps_def loadRecords_deps_def call_loadFilterOptions_def
      loadFilterOptions_start_def)

lemma effects_deps:
  "effect_deps (component (filter_effect c w)) = effect_deps (component w)"
  "effect_deps (component (page_effect c w)) = effect_deps (component w)"
  "effect_deps (component (analytics_effect c w)) = effect_deps (component w)"
  "effect_deps (component (autoRefresh_effect c w)) = effect_deps (component w)"
  by (simp_all add: filter_effect_def page_effect_def analytics_effect_def
      autoRefresh_effect_def refresh_now_def call_loadRecords_deps call_loadAnalytics_deps
      call_loadFilterOptions_deps)

lemma run_effects_deps:
  "effect_deps (component (run_effects old w)) = effect_deps (component w)"
  unfolding run_effects_def Let_def by (simp only: effects_deps if_distrib [of component]
      if_distrib [of effect_deps] if_cancel split: if_splits)

lemma run_effects_settles:
  "run_effects (component w) (run_effects old w) = run_effects old w"
proof -
  have "effect_deps (component w) = effect_deps (component (run_effects old w))"
    by (simp only: run_effects_deps)
  from effect_deps_eq [OF this] show ?thesis
    by (simp add: run_effects_def [of "component w"] Let_def)
qed


lemma tick_idle:
  assumes "filterTimeout w = Some (r, c)" "1 < r" "autoRefreshInterval w = None"
  shows "tick w = w\<lparr> filterTimeout := Some (r - 1, c) \<rparr>"
  using assms by (simp add: tick_def tick_filterTimeout_def tick_autoRefreshInterval_def)

lemma ticks_idle:
  "filterTimeout w = Some (r, c) \<Longrightarrow> n < r \<Longrightarrow> autoRefreshInterval w = None \<Longrightarrow>
   (tick ^^ n) w = w\<lparr> filterTimeout := Some (r - n, c) \<rparr>"
proof (induction n)
  case 0
  then show ?case by simp
next
  case (Suc n)
  then have "(tick ^^ n) w = w\<lparr> filterTimeout := Some (r - n, c) \<rparr>" by simp
  moreover have "tick (w\<lparr> filterTimeout := Some (r - n, c) \<rparr>)
      = w\<lparr> filterTimeout := Some (r - n, c) \<rparr>\<lparr> filterTimeout := Some (r - n - 1, c) \<rparr>"
    using Suc.prems by (intro tick_idle) simp_all
  ultimately show ?case by simp
qed

















lemmas loaded_defs = settled_def loaded_state_def example_state_def initial_state_def





text \<open>
  C8 (amended). A page change sets the page and leaves the page size, the period and the
  three filters unchanged; a page-size change sets the page size, resets the page to 1 and
  leaves the period and the filters unchanged. Neither touches the debounce timer. On a
  connected page without auto-refresh, a change of the value sends exactly one list
  request at once, for the new page and page size.
\<close>

theorem page_change_spec:
  "filter_deps (component (step w (HandlePageChange n))) = filter_deps (component w)
   \<and> pageSize (component (step w (HandlePageChange n))) = pageSize (component w)
   \<and> page (component (step w (HandlePageChange n))) = n
   \<and> filterTimeout (step w (HandlePageChange n)) = filterTimeout w
   \<and> filter_deps (component (step w (HandlePageSizeChange n))) = filter_deps (component w)
   \<and> pageSize (component (step w (HandlePageSizeChange n))) = n
   \<and> page (component (step w (HandlePageSizeChange n))) = 1
   \<and> filterTimeout (step w (HandlePageSizeChange n)) = filterTimeout w
   \<and> (connectionStatus (component w) = ''connected'' \<and> \<not> autoRefresh (component w)
        \<and> n \<noteq> page (component w) \<longrightarrow>
       (\<exists>q. sent (step w (HandlePageChange n)) = sent w @ [ListReq q]
          \<and> q_page q = n \<and> q_page_size q = pageSize (component w)))
   \<and> (connectionStatus (component w) = ''connected'' \<and> \<not> autoRefresh (component w)
        \<and> n \<noteq> pageSize (component w) \<longrightarrow>
       (\<exists>q. sent (step w (HandlePageSizeChange n)) = sent w @ [ListReq q]
          \<and> q_page q = 1 \<and> q_page_size q = n))"
  by (simp add: effect_defs call_defs Let_def)


theorem page_change_spec_witness:
  "page (component (step (settled example_state) (HandlePageChange 5))) = 5
   \<and> pageSize (component (step (settled example_state) (HandlePageChange 5))) = 20
   \<and> map q_page (list_queries (sent (step (settled example_state) (HandlePageChange 5)))) = [5]
   \<and> pageSize (component (step (settled example_state) (HandlePageSizeChange 50))) = 50
   \<and> map q_page_size (list_queries (sent (step (settled example_state) (HandlePageSizeChange 50))))
       = [50]"
proof -
  have h: "connectionStatus (component (settled example_state)) = ''connected''
      \<and> \<not> autoRefresh (component (settled example_state))
      \<and> 5 \<noteq> page (component (settled example_state))"
    "connectionStatus (component (settled example_state)) = ''connected''
      \<and> \<not> autoRefresh (component (settled example_state))
      \<and> 50 \<noteq> pageSize (component (settled example_state))"
    by (simp_all add: example_defs)
  have v: "pageSize (component (settled example_state)) = 20" "sent (settled example_state) = []"
    by (simp_all add: example_defs)
  from page_change_spec [of "settled example_state" 5] h(1)
  obtain q where q: "sent (step (settled example_state) (HandlePageChange 5))
      = sent (settled example_state) @ [ListReq q]" "q_page q = 5"
    and p: "page (component (step (settled example_state) (HandlePageChange 5))) = 5"
      "pageSize (component (step (settled example_state) (HandlePageChange 5)))
        = pageSize (component (settled example_state))"
    by blast
  from page_change_spec [of "settled example_state" 50] h(2)
  obtain q' where q': "sent (step (settled example_state) (HandlePageSizeChange 50))
      = sent (settled example_state) @ [ListReq q']" "q_page_size q' = 50"
    and p': "pageSize (component (step (settled example_state) (HandlePageSizeChange 50))) = 50"
    by blast
  show ?thesis using q q' p p' v by simp
qed

text \<open>
  C8 as stated fails for the page-size change, which resets the current page to 1.
\<close>

theorem page_size_change_counterexample:
  "page (component (settled example_state)) = 3
   \<and> page (component (step (settled example_state) (HandlePageSizeChange 50))) = 1"
  by (simp add: example_defs effect_defs call_defs Let_def)

text \<open>
  The debounce timer: a filter change arms it for 300 ms, a second change within the
  window re-arms it, and nothing is sent before it runs out. On page 1 the reload it fires
  is the only list request.
\<close>

lemma filter_change_arms_timer:
  assumes "\<not> autoRefresh (component w)" and "f \<noteq> statusFilter (component w)"
  shows "step w (SetStatusFilter f)
     = w\<lparr> component := (component w)\<lparr> statusFilter := f \<rparr>,
          filterTimeout := Some (300, (component w)\<lparr> statusFilter := f \<rparr>),
          autoRefreshInterval := None \<rparr>"
  using assms by (simp add: effect_defs Let_def)

lemma model_change_arms_timer:
  assumes "\<not> autoRefresh (component w)" and "m \<noteq> modelFilter (component w)"
  shows "step w (SetModelFilter m)
     = w\<lparr> component := (component w)\<lparr> modelFilter := m \<rparr>,
          filterTimeout := Some (300, (component w)\<lparr> modelFilter := m \<rparr>),
          autoRefreshInterval := None \<rparr>"
  using assms by (simp add: effect_defs Let_def)

lemma elapse_300:
  assumes "filterTimeout w = Some (300, c)" and "autoRefreshInterval w = None"
  shows "step w (Elapse 300) = tick (w\<lparr> filterTimeout := Some (1, c) \<rparr>)"
proof -
  have "(300::nat) = Suc 299" by simp
  then have "(tick ^^ 300) w = tick ((tick ^^ 299) w)"
    by (simp only: funpow.simps o_apply)
  also have "(tick ^^ 299) w = w\<lparr> filterTimeout := Some (300 - 299, c) \<rparr>"
    using assms by (intro ticks_idle) simp_all
  finally show ?thesis by simp
qed

lemma filter_change_single_fetch_first_page:
  assumes "connectionStatus (component w) = ''connected''"
    and "\<not> autoRefresh (component w)"
    and "page (component w) = 1"
    and "f \<noteq> statusFilter (component w)"
  shows "\<exists>q. sent (run w [SetStatusFilter f, Elapse 300]) = sent w @ [ListReq q] \<and> q_page q = 1"
proof -
  let ?c = "(component w)\<lparr> statusFilter := f \<rparr>"
  let ?w1 = "w\<lparr> component := ?c, filterTimeout := Some (300, ?c), autoRefreshInterval := None \<rparr>"
  have "run w [SetStatusFilter f, Elapse 300] = step (step w (SetStatusFilter f)) (Elapse 300)"
    by (simp only: run_def foldl.simps)
  also have "\<dots> = step ?w1 (Elapse 300)"
    by (simp only: filter_change_arms_timer [OF assms(2,4)])
  also have "\<dots> = tick (?w1\<lparr> filterTimeout := Some (1, ?c) \<rparr>)"
    by (rule elapse_300) simp_all
  finally show ?thesis
    using assms
    by (simp add: tick_def tick_filterTimeout_def tick_autoRefreshInterval_def effect_defs
        call_defs Let_def)
qed

lemma filter_changes_coalesce:
  assumes "\<not> autoRefresh (component w)"
    and "f \<noteq> statusFilter (component w)"
    and "m \<noteq> modelFilter (component w)"
    and "n < 300"
  shows "sent (run w [SetStatusFilter f, Elapse n, SetModelFilter m, Elapse 299]) = sent w"
proof -
  let ?c = "(component w)\<lparr> statusFilter := f \<rparr>"
  let ?w1 = "w\<lparr> component := ?c, filterTimeout := Some (300, ?c), autoRefreshInterval := None \<rparr>"
  let ?w2 = "?w1\<lparr> filterTimeout := Some (300 - n, ?c) \<rparr>"
  let ?c3 = "?c\<lparr> modelFilter := m \<rparr>"
  let ?w3 = "?w2\<lparr> component := ?c3, filterTimeout := Some (300, ?c3), autoRefreshInterval := None \<rparr>"
  have "run w [SetStatusFilter f, Elapse n, SetModelFilter m, Elapse 299]
      = step (step (step (step w (SetStatusFilter f)) (Elapse n)) (SetModelFilter m)) (Elapse 299)"
    by (simp only: run_def foldl.simps)
  also have "step w (SetStatusFilter f) = ?w1"
    by (rule filter_change_arms_timer [OF assms(1,2)])
  also have "step ?w1 (Elapse n) = ?w2"
    unfolding step.simps using assms(4) by (intro ticks_idle) simp_all
  also have "step ?w2 (SetModelFilter m) = ?w3"
    using assms(1,3) by (subst model_change_arms_timer) simp_all
  also have "step ?w3 (Elapse 299) = ?w3\<lparr> filterTimeout := Some (300 - 299, ?c3) \<rparr>"
    unfolding step.simps by (intro ticks_idle) simp_all
  finally show ?thesis by simp
qed

text \<open>
  C9, evaluated on the code. On a connected page without auto-refresh that shows a page
  other than 1, a change of the status filter followed by 300 ms sends two list requests,
  not one: the debounced reload resets the page to 1 and sends its query, and the change
  of the page re-runs the page effect, which sends the same query again.
\<close>

theorem filter_change_double_fetch:
  assumes "connectionStatus (component w) = ''connected''"
    and "\<not> autoRefresh (component w)"
    and "page (component w) \<noteq> 1"
    and "f \<noteq> statusFilter (component w)"
  shows "\<exists>q. sent (run w [SetStatusFilter f, Elapse 300]) = sent w @ [ListReq q, ListReq q]
           \<and> q_page q = 1"
proof -
  let ?c = "(component w)\<lparr> statusFilter := f \<rparr>"
  let ?w1 = "w\<lparr> component := ?c, filterTimeout := Some (300, ?c), autoRefreshInterval := None \<rparr>"
  have "run w [SetStatusFilter f, Elapse 300] = step (step w (SetStatusFilter f)) (Elapse 300)"
    by (simp only: run_def foldl.simps)
  also have "\<dots> = step ?w1 (Elapse 300)"
    by (simp only: filter_change_arms_timer [OF assms(2,4)])
  also have "\<dots> = tick (?w1\<lparr> filterTimeout := Some (1, ?c) \<rparr>)"
    by (rule elapse_300) simp_all
  finally show ?thesis
    using assms
    by (simp add: tick_def tick_filterTimeout_def tick_autoRefreshInterval_def effect_defs
        call_defs Let_def)
qed

theorem filter_change_double_fetch_witness:
  "map q_page (list_queries (sent (run (settled example_state) [SetStatusFilter failed, Elapse 300])))
     = [1, 1]"
proof -
  have h: "connectionStatus (component (settled example_state)) = ''connected''"
    "\<not> autoRefresh (component (settled example_state))"
    "page (component (settled example_state)) \<noteq> 1"
    "failed \<noteq> statusFilter (component (settled example_state))"
    by (simp_all add: example_defs)
  have v: "sent (settled example_state) = []" by (simp add: example_defs)
  from filter_change_double_fetch [OF h]
  obtain q where "sent (run (settled example_state) [SetStatusFilter failed, Elapse 300])
      = sent (settled example_state) @ [ListReq q, ListReq q]" "q_page q = 1"
    by blast
  then show ?thesis unfolding v by simp
qed

lemma connection_lost_keeps_timer:
  assumes "connectionStatus (component w) = ''connected''" and "\<not> autoRefresh (component w)"
  shows "step w (ConnectionStatusChanged ''disconnected'')
     = w\<lparr> component := (component w)\<lparr> connectionStatus := ''disconnected'', loading := False \<rparr>,
          autoRefreshInterval := None \<rparr>"
  using assms by (simp add: effect_defs call_defs Let_def)

text \<open>
  C6, evaluated on the code. On a page that is not connected, a click on a row sends the
  detail request: \<^verbatim>\<open>loadRecordDetail\<close> has no connection guard. And a debounce timer
  armed while the page was connected still holds the callback of that render: when the
  connection is lost within the 300 ms, nothing is sent until the timer runs out, and then
  the list request is sent on the disconnected page.
\<close>

theorem disconnected_page_requests:
  "(connectionStatus (component w) \<noteq> ''connected'' \<longrightarrow>
      sent (step w (HandleRowClick rid)) = sent w @ [GetByIdReq rid]
      \<and> pending (step w (HandleRowClick rid)) = pending w @ [DetailPending]
      \<and> detailLoading (component (step w (HandleRowClick rid)))
      \<and> connectionStatus (component (step w (HandleRowClick rid)))
          = connectionStatus (component w))
   \<and> (connectionStatus (component w) = ''connected'' \<and> \<not> autoRefresh (component w)
        \<and> f \<noteq> statusFilter (component w) \<longrightarrow>
      connectionStatus (component
          (run w [SetStatusFilter f, ConnectionStatusChanged ''disconnected'', Elapse 299]))
        = ''disconnected''
      \<and> sent (run w [SetStatusFilter f, ConnectionStatusChanged ''disconnected'', Elapse 299])
          = sent w
      \<and> (\<exists>q. sent (run w [SetStatusFilter f, ConnectionStatusChanged ''disconnected'', Elapse 300])
                = sent w @ [ListReq q] \<and> q_page q = 1)
      \<and> connectionStatus (component
          (run w [SetStatusFilter f, ConnectionStatusChanged ''disconnected'', Elapse 300]))
        = ''disconnected'')"
proof -
  have a: "sent (step w (HandleRowClick rid)) = sent w @ [GetByIdReq rid]
      \<and> pending (step w (HandleRowClick rid)) = pending w @ [DetailPending]
      \<and> detailLoading (component (step w (HandleRowClick rid)))
      \<and> connectionStatus (component (step w (HandleRowClick rid)))
          = connectionStatus (component w)"
    by (simp add: call_loadRecordDetail_def loadRecordDetail_start_def run_effects_def Let_def
        filter_deps_def page_deps_def analytics_deps_def loadRecords_deps_def)
  have b: "connectionStatus (component w) = ''connected'' \<and> \<not> autoRefresh (component w)
        \<and> f \<noteq> statusFilter (component w) \<longrightarrow>
      connectionStatus (component
          (run w [SetStatusFilter f, ConnectionStatusChanged ''disconnected'', Elapse 299]))
        = ''disconnected''
      \<and> sent (run w [SetStatusFilter f, ConnectionStatusChanged ''disconnected'', Elapse 299])
          = sent w
      \<and> (\<exists>q. sent (run w [SetStatusFilter f, ConnectionStatusChanged ''disconnected'', Elapse 300])
                = sent w @ [ListReq q] \<and> q_page q = 1)
      \<and> connectionStatus (component
          (run w [SetStatusFilter f, ConnectionStatusChanged ''disconnected'', Elapse 300]))
        = ''disconnected''"
  proof
    assume h: "connectionStatus (component w) = ''connected'' \<and> \<not> autoRefresh (component w)
        \<and> f \<noteq> statusFilter (component w)"
    let ?c = "(component w)\<lparr> statusFilter := f \<rparr>"
    let ?w1 = "w\<lparr> component := ?c, filterTimeout := Some (300, ?c), autoRefreshInterval := None \<rparr>"
    let ?w2 = "?w1\<lparr> component := ?c\<lparr> connectionStatus := ''disconnected'', loading := False \<rparr>,
                   autoRefreshInterval := None \<rparr>"
    have s1: "step w (SetStatusFilter f) = ?w1"
      using h by (intro filter_change_arms_timer) simp_all
    have s2: "step ?w1 (ConnectionStatusChanged ''disconnected'') = ?w2"
      using h by (subst connection_lost_keeps_timer) simp_all
    have r: "\<And>ev. run w [SetStatusFilter f, ConnectionStatusChanged ''disconnected'', ev]
        = step ?w2 ev"
      by (simp only: run_def foldl.simps s1 s2)
    have e299: "step ?w2 (Elapse 299) = ?w2\<lparr> filterTimeout := Some (300 - 299, ?c) \<rparr>"
      unfolding step.simps by (intro ticks_idle) simp_all
    have e300: "step ?w2 (Elapse 300) = tick (?w2\<lparr> filterTimeout := Some (1, ?c) \<rparr>)"
      by (rule elapse_300) simp_all
    show "connectionStatus (component
          (run w [SetStatusFilter f, ConnectionStatusChanged ''disconnected'', Elapse 299]))
        = ''disconnected''
      \<and> sent (run w [SetStatusFilter f, ConnectionStatusChanged ''disconnected'', Elapse 299])
          = sent w
      \<and> (\<exists>q. sent (run w [SetStatusFilter f, ConnectionStatusChanged ''disconnected'', Elapse 300])
                = sent w @ [ListReq q] \<and> q_page q = 1)
      \<and> connectionStatus (component
          (run w [SetStatusFilter f, ConnectionStatusChanged ''disconnected'', Elapse 300]))
        = ''disconnected''"
      unfolding r e299 e300 using h
      by (simp add: tick_def tick_filterTimeout_def tick_autoRefreshInterval_def effect_defs
          call_defs Let_def)
  qed
  from a b show ?thesis by blast
qed

theorem disconnected_page_requests_witness:
  "connectionStatus (component (settled offline_state)) = ''disconnected''
   \<and> map record_id (records (component (settled offline_state))) = [7, 8]
   \<and> sent (step (settled offline_state) (HandleRowClick 7)) = [GetByIdReq 7]
   \<and> map q_page (list_queries (sent (run (settled loaded_state)
        [SetStatusFilter failed, ConnectionStatusChanged ''disconnected'', Elapse 300]))) = [1]
   \<and> connectionStatus (component (run (settled loaded_state)
        [SetStatusFilter failed, ConnectionStatusChanged ''disconnected'', Elapse 300]))
       = ''disconnected''"
proof -
  have h: "connectionStatus (component (settled offline_state)) \<noteq> ''connected''"
    "connectionStatus (component (settled loaded_state)) = ''connected''
      \<and> \<not> autoRefresh (component (settled loaded_state))
      \<and> failed \<noteq> statusFilter (component (settled loaded_state))"
    by (simp_all add: loaded_defs offline_state_def)
  have v: "connectionStatus (component (settled offline_state)) = ''disconnected''"
    "map record_id (records (component (settled offline_state))) = [7, 8]"
    "sent (settled offline_state) = []" "sent (settled loaded_state) = []"
    by (simp_all add: loaded_defs offline_state_def)
  from disconnected_page_requests [where w = "settled offline_state" and rid = 7] h(1)
  have a: "sent (step (settled offline_state) (HandleRowClick 7))
      = sent (settled offline_state) @ [GetByIdReq 7]"
    by blast
  from disconnected_page_requests [where w = "settled loaded_state" and f = failed] h(2)
  obtain q where b: "sent (run (settled loaded_state)
        [SetStatusFilter failed, ConnectionStatusChanged ''disconnected'', Elapse 300])
      = sent (settled loaded_state) @ [ListReq q]" "q_page q = 1"
    and c: "connectionStatus (component (run (settled loaded_state)
        [SetStatusFilter failed, ConnectionStatusChanged ''disconnected'', Elapse 300]))
       = ''disconnected''"
    by blast
  show ?thesis using a b c v by simp
qed

subsection \<open>Key masking and intensity levels\<close>

text \<open>
  C10. For a key longer than 8 code units, written as its first four, its middle and its
  last four code units, maskApiKey returns the first four, four stars and the last four:
  the middle does not occur in the result, so two keys that agree on both ends are masked
  alike. A non-empty key of at most 8 code units becomes that many stars; an undefined or
  empty key becomes a dash.
\<close>

theorem maskApiKey_spec:
  "(length pre = 4 \<and> length suf = 4 \<and> mid \<noteq> [] \<longrightarrow>
      maskApiKey (Some (pre @ mid @ suf)) = pre @ ''****'' @ suf)
   \<and> (8 < length k \<and> 8 < length k' \<and> take 4 k = take 4 k'
        \<and> drop (length k - 4) k = drop (length k' - 4) k'
        \<longrightarrow> maskApiKey (Some k) = maskApiKey (Some k'))
   \<and> (s \<noteq> [] \<and> length s \<le> 8 \<longrightarrow>
        maskApiKey (Some s) = replicate (length s) CHR ''*'')
   \<and> maskApiKey None = ''-''
   \<and> maskApiKey (Some []) = ''-''"
proof (intro conjI impI)
  assume h: "length pre = 4 \<and> length suf = 4 \<and> mid \<noteq> []"
  then have "0 < length mid" by simp
  with h show "maskApiKey (Some (pre @ mid @ suf)) = pre @ ''****'' @ suf"
    by (simp add: maskApiKey_def)
next
  assume "8 < length k \<and> 8 < length k' \<and> take 4 k = take 4 k'
    \<and> drop (length k - 4) k = drop (length k' - 4) k'"
  then show "maskApiKey (Some k) = maskApiKey (Some k')"
    by (auto simp: maskApiKey_def)
next
  assume "s \<noteq> [] \<and> length s \<le> 8"
  then show "maskApiKey (Some s) = replicate (length s) CHR ''*''"
    by (simp add: maskApiKey_def)
qed (simp_all add: maskApiKey_def)

theorem maskApiKey_spec_witness:
  "maskApiKey (Some ''sk-abcdefghijklmnop'') = ''sk-a****mnop''
   \<and> maskApiKey (Some ''sk-aXYZmnop'') = maskApiKey (Some ''sk-abcdefghijklmnop'')
   \<and> maskApiKey (Some ''secret'') = ''******''"
  using maskApiKey_spec [of "''sk-a''" "''mnop''" "''bcdefghijkl''"
      "''sk-aXYZmnop''" "''sk-abcdefghijklmnop''" "''secret''"]
  by simp

text \<open>
  C4. For non-negative counts the level is 0 when the count or the maximum is 0, and 4
  when the count equals a positive maximum; a positive count that is exactly one quarter,
  one half or three quarters of the maximum gets level 1, 2 or 3. A padding cell (negative
  count) is rendered with the class \<^verbatim>\<open>empty\<close> and level 0 whatever the maximum is.
\<close>

theorem getIntensityLevel_spec:
  "(0 \<le> m \<longrightarrow> getIntensityLevel 0 m = 0)
   \<and> (0 \<le> r \<longrightarrow> getIntensityLevel r 0 = 0)
   \<and> (0 < m \<longrightarrow> getIntensityLevel m m = 4)
   \<and> (0 < r \<and> 4 * r = m \<longrightarrow> getIntensityLevel r m = 1)
   \<and> (0 < r \<and> 2 * r = m \<longrightarrow> getIntensityLevel r m = 2)
   \<and> (0 < r \<and> 4 * r = 3 * m \<longrightarrow> getIntensityLevel r m = 3)
   \<and> (requests day < 0 \<longrightarrow>
        cell_empty (render_cell day m) \<and> data_level (render_cell day m) = 0)"
proof (intro conjI impI)
  assume "0 < r \<and> 4 * r = m"
  then have "0 < r" and "real_of_int m = 4 * real_of_int r" by auto
  then show "getIntensityLevel r m = 1"
    by (simp add: getIntensityLevel_def)
next
  assume "0 < r \<and> 2 * r = m"
  then have "0 < r" and "real_of_int m = 2 * real_of_int r" by auto
  then show "getIntensityLevel r m = 2"
    by (simp add: getIntensityLevel_def)
next
  assume "0 < r \<and> 4 * r = 3 * m"
  then have r: "0 < r" and "real_of_int (4 * r) = real_of_int (3 * m)" by auto
  then have e: "real_of_int r = 3 / 4 * real_of_int m" by simp
  with r have m: "0 < real_of_int m" by simp
  show "getIntensityLevel r m = 3"
    using r m by (simp add: getIntensityLevel_def e)
qed (simp_all add: getIntensityLevel_def render_cell_def)

theorem getIntensityLevel_spec_witness:
  "getIntensityLevel 0 100 = 0 \<and> getIntensityLevel 7 0 = 0
   \<and> getIntensityLevel 100 100 = 4 \<and> getIntensityLevel 25 100 = 1
   \<and> getIntensityLevel 50 100 = 2 \<and> getIntensityLevel 75 100 = 3
   \<and> cell_empty (render_cell \<lparr>date = [], requests = - 1, total_tokens = 0\<rparr> 100)
   \<and> data_level (render_cell \<lparr>date = [], requests = - 1, total_tokens = 0\<rparr> 100) = 0"
  using getIntensityLevel_spec [of 100 7 "\<lparr>date = [], requests = - 1, total_tokens = 0\<rparr>"]
    getIntensityLevel_spec [of 100 25 "\<lparr>date = [], requests = - 1, total_tokens = 0\<rparr>"]
    getIntensityLevel_spec [of 100 50 "\<lparr>date = [], requests = - 1, total_tokens = 0\<rparr>"]
    getIntensityLevel_spec [of 100 75 "\<lparr>date = [], requests = - 1, total_tokens = 0\<rparr>"]
  by simp

end
